theory Spec2Isabelle
  imports Complex_Main "HOL-Library.Char_ord" "HOL-Library.List_Lexorder"
    "HOL-Library.Extended_Nat" "HOL-Library.Log_Nat" "HOL-Library.Multiset"
begin

section \<open>Constants (constants.ts)\<close>

definition SHARED_TEXTURES_DIR :: string where
  "SHARED_TEXTURES_DIR = ''Shared''"

definition SHARED_TEXTURE_PREFIX :: string where
  "SHARED_TEXTURE_PREFIX = ''t''"

definition DEDUPE_MAX_MISMATCH_PIXELS :: nat where
  "DEDUPE_MAX_MISMATCH_PIXELS = 64"

definition DEDUPE_CHANNEL_TOLERANCE :: nat where
  "DEDUPE_CHANNEL_TOLERANCE = 4"

definition DEDUPE_ALPHA_IGNORE_BELOW :: nat where
  "DEDUPE_ALPHA_IGNORE_BELOW = 4"

definition DEDUPE_FINGERPRINT_SIZE :: nat where
  "DEDUPE_FINGERPRINT_SIZE = 16"

section \<open>JavaScript numbers\<close>

text \<open>
  All numbers of the program are IEEE-754 doubles. A double holds every natural number
  below \<open>2 ^ 53\<close> exactly; a larger one is rounded to 53 significant bits, ties to even.
  \<open>fl53\<close> is that rounding on natural numbers. Scaling by a power of two commutes with
  the rounding (far from overflow and underflow), so the double nearest to \<open>n / 2 ^ 53\<close>
  is \<open>fl53 n / 2 ^ 53\<close>.
\<close>

definition fl53 :: "nat \<Rightarrow> nat" where
  "fl53 n =
     (let l = floorlog 2 n in
      if l \<le> 53 then n
      else
        let e = l - 53; q = n div 2 ^ e; r = n mod 2 ^ e; half = 2 ^ (e - 1)
        in (if r < half \<or> (r = half \<and> even q) then q else q + 1) * 2 ^ e)"

text \<open>
  \<open>DEDUPE_SIMILARITY_THRESHOLD = 0.999\<close>: the literal denotes the double nearest to
  \<open>999 / 1000\<close>, which lies in the binade \<open>[1/2, 1)\<close> whose doubles are the multiples of
  \<open>2 ^ -53\<close>. \<open>DEDUPE_SIMILARITY_THRESHOLD_M\<close> is its numerator over \<open>2 ^ 53\<close>.
\<close>

definition DEDUPE_SIMILARITY_THRESHOLD_M :: nat where
  "DEDUPE_SIMILARITY_THRESHOLD_M = 8998192055486251"

text \<open>
  \<open>Math.round(x / y)\<close> for natural numbers \<open>x\<close>, \<open>y\<close>: the quotient rounded to the
  nearest integer, halves upwards. The program divides by 255 and by 17 only; both are
  odd, so no quotient is a half-integer and the nearest integer is at distance at least
  \<open>1 / 510\<close> from the rounding boundary, far beyond the error of the double division.
\<close>

definition roundDiv :: "nat \<Rightarrow> nat \<Rightarrow> nat" where
  "roundDiv x y = (2 * x + y) div (2 * y)"

text \<open>The template literal \<open>`${n}`\<close> of a natural number: its decimal digits.\<close>

fun decimal :: "nat \<Rightarrow> string" where
  "decimal n =
     (if n < 10 then [''0123456789'' ! n]
      else decimal (n div 10) @ [''0123456789'' ! (n mod 10)])"

declare decimal.simps [simp del]

section \<open>Data (types.ts)\<close>

record SharedTextureInfo =
  key :: string
  width :: nat
  height :: nat
  fingerprint :: string
  filePath :: string
  texturePath :: string

record DecodedPng =
  width :: nat
  height :: nat
  data :: "nat list"

text \<open>
  A buffer is its list of bytes (numbers \<open>0..255\<close>). The two library functions the store
  calls, \<open>createHash("sha256")\<close> of node:crypto and \<open>PNG.sync.read\<close> of pngjs, and the
  two constructor parameters of \<open>SharedTextureStore\<close> are the environment of every
  operation. \<open>pngSyncRead\<close> is \<open>None\<close> where the library throws.
\<close>

record Env =
  sha256 :: "nat list \<Rightarrow> string"
  pngSyncRead :: "nat list \<Rightarrow> DecodedPng option"
  sharedDir :: string
  namespace :: string

datatype error = ReaddirError | ReadFileError | DecodeError | WriteError | RmError

section \<open>The persistence directory\<close>

text \<open>
  The file system as the store sees it: the directory \<open>sharedDir\<close>, whether it exists
  and may be listed and written, and its entries in the order \<open>readdir\<close> returns them.
\<close>

datatype fnode = RegularFile "nat list" | OtherEntry

record FsState =
  dirExists :: bool
  dirReadable :: bool
  dirWritable :: bool
  dirEntries :: "(string \<times> fnode) list"

definition pathJoin :: "string \<Rightarrow> string \<Rightarrow> string" where
  "pathJoin dir name = dir @ ''/'' @ name"

definition entryName :: "Env \<Rightarrow> string \<Rightarrow> string option" where
  "entryName E p =
     (let n = length (sharedDir E) + 1 in
      if take n p = sharedDir E @ ''/'' then Some (drop n p) else None)"

definition fsReadFile :: "Env \<Rightarrow> FsState \<Rightarrow> string \<Rightarrow> nat list option" where
  "fsReadFile E fs p =
     (case entryName E p of
        None \<Rightarrow> None
      | Some n \<Rightarrow>
          (case map_of (dirEntries fs) n of
             Some (RegularFile c) \<Rightarrow> Some c
           | _ \<Rightarrow> None))"

definition exists :: "Env \<Rightarrow> FsState \<Rightarrow> string \<Rightarrow> bool" where
  "exists E fs p =
     (case entryName E p of
        None \<Rightarrow> False
      | Some n \<Rightarrow> map_of (dirEntries fs) n \<noteq> None)"

fun upsert :: "string \<Rightarrow> fnode \<Rightarrow> (string \<times> fnode) list \<Rightarrow> (string \<times> fnode) list" where
  "upsert n v [] = [(n, v)]"
| "upsert n v ((m, w) # es) = (if m = n then (n, v) # es else (m, w) # upsert n v es)"

definition writeFileSafe :: "Env \<Rightarrow> FsState \<Rightarrow> string \<Rightarrow> nat list \<Rightarrow> error + FsState" where
  "writeFileSafe E fs p buffer =
     (case entryName E p of
        None \<Rightarrow> Inl WriteError
      | Some n \<Rightarrow>
          if \<not> dirWritable fs then Inl WriteError
          else Inr (fs\<lparr>dirExists := True,
                        dirEntries := upsert n (RegularFile buffer) (dirEntries fs)\<rparr>))"

definition mkdir :: "FsState \<Rightarrow> FsState" where
  "mkdir fs =
     (if dirExists fs then fs
      else \<lparr>dirExists = True, dirReadable = True, dirWritable = True, dirEntries = []\<rparr>)"

section \<open>Bitmap codec (texture-store.ts)\<close>

definition sha256Hex :: "Env \<Rightarrow> nat list \<Rightarrow> string" where
  "sha256Hex E bytes = sha256 E bytes"

definition decodePng :: "Env \<Rightarrow> nat list \<Rightarrow> DecodedPng option" where
  "decodePng E buffer = pngSyncRead E buffer"

definition sizeHeader :: "nat \<Rightarrow> nat \<Rightarrow> nat list" where
  "sizeHeader w h = map of_char (decimal w @ ''x'' @ decimal h) @ [0]"

definition hashPngPixels :: "Env \<Rightarrow> DecodedPng \<Rightarrow> string" where
  "hashPngPixels E decoded =
     sha256Hex E (sizeHeader (width decoded) (height decoded) @ data decoded)"

text \<open>\<open>buf[i] ?? 0\<close>: a read outside the buffer is \<open>undefined\<close>, replaced by 0.\<close>

definition byteAt :: "nat list \<Rightarrow> int \<Rightarrow> nat" where
  "byteAt buf i = (if 0 \<le> i \<and> i < int (length buf) then buf ! nat i else 0)"

definition premul :: "nat \<Rightarrow> nat \<Rightarrow> nat" where
  "premul c a = roundDiv (c * a) 255"

definition quant :: "nat \<Rightarrow> nat" where
  "quant v = max 0 (min 15 (roundDiv v 17))"

definition fingerprintCell :: "DecodedPng \<Rightarrow> nat \<Rightarrow> nat \<Rightarrow> nat list" where
  "fingerprintCell decoded y x =
     (let size = int DEDUPE_FINGERPRINT_SIZE;
          w = int (width decoded); h = int (height decoded);
          srcY = min (h - 1) (((2 * int y + 1) * h) div (2 * size));
          srcX = min (w - 1) (((2 * int x + 1) * w) div (2 * size));
          i = (srcY * w + srcX) * 4;
          a = byteAt (data decoded) (i + 3);
          r = premul (byteAt (data decoded) i) a;
          g = premul (byteAt (data decoded) (i + 1)) a;
          b = premul (byteAt (data decoded) (i + 2)) a
      in [quant r, quant g, quant b, quant a])"

definition fingerprintGrid :: "DecodedPng \<Rightarrow> nat list" where
  "fingerprintGrid decoded =
     concat (map (\<lambda>y. concat (map (\<lambda>x. fingerprintCell decoded y x)
                                    [0..<DEDUPE_FINGERPRINT_SIZE]))
                 [0..<DEDUPE_FINGERPRINT_SIZE])"

definition computeFingerprint :: "Env \<Rightarrow> DecodedPng \<Rightarrow> string" where
  "computeFingerprint E decoded = sha256Hex E (fingerprintGrid decoded)"

section \<open>Similarity comparator\<close>

definition absDiff :: "nat \<Rightarrow> nat \<Rightarrow> nat" where
  "absDiff x y = (if x \<le> y then y - x else x - y)"

text \<open>The pixel at byte offset \<open>i\<close> counts as a mismatch.\<close>

definition pixelMismatch :: "nat list \<Rightarrow> nat list \<Rightarrow> nat \<Rightarrow> bool" where
  "pixelMismatch a b i =
     (let aA = byteAt a (int i + 3); bA = byteAt b (int i + 3) in
      if aA \<le> DEDUPE_ALPHA_IGNORE_BELOW \<and> bA \<le> DEDUPE_ALPHA_IGNORE_BELOW then False
      else
        let aR = premul (byteAt a (int i)) aA;
            aG = premul (byteAt a (int i + 1)) aA;
            aB = premul (byteAt a (int i + 2)) aA;
            bR = premul (byteAt b (int i)) bA;
            bG = premul (byteAt b (int i + 1)) bA;
            bB = premul (byteAt b (int i + 2)) bA;
            dR = absDiff aR bR; dG = absDiff aG bG; dB = absDiff aB bB;
            dA = absDiff aA bA;
            delta = max (max (max dR dG) dB) dA
        in delta > DEDUPE_CHANNEL_TOLERANCE)"

function countLoop :: "nat list \<Rightarrow> nat list \<Rightarrow> nat \<Rightarrow> nat \<Rightarrow> nat \<Rightarrow> nat" where
  "countLoop a b allowed i mismatches =
     (if i < length a then
        (if pixelMismatch a b i then
           (if mismatches + 1 > allowed then mismatches + 1
            else countLoop a b allowed (i + 4) (mismatches + 1))
         else countLoop a b allowed (i + 4) mismatches)
      else mismatches)"
  by pat_completeness auto
termination
  by (relation "measure (\<lambda>(a, b, allowed, i, mismatches). length a - i)") auto

declare countLoop.simps [simp del]

definition countMismatchedPixels :: "nat list \<Rightarrow> nat list \<Rightarrow> nat \<Rightarrow> nat" where
  "countMismatchedPixels a b allowed =
     (if length a \<noteq> length b then allowed + 1 else countLoop a b allowed 0 0)"

section \<open>The index and rehydration\<close>

record Store =
  exactHashToKey :: "string \<rightharpoonup> string"
  bucketToKeys :: "string \<rightharpoonup> string list"
  keyToInfo :: "string \<rightharpoonup> SharedTextureInfo"

definition emptyStore :: Store where
  "emptyStore = \<lparr>exactHashToKey = Map.empty, bucketToKeys = Map.empty, keyToInfo = Map.empty\<rparr>"

definition bucketKey :: "nat \<Rightarrow> nat \<Rightarrow> string \<Rightarrow> string" where
  "bucketKey w h fp = decimal w @ ''x'' @ decimal h @ '':'' @ fp"

definition texturePathForKey :: "Env \<Rightarrow> string \<Rightarrow> string" where
  "texturePathForKey E k = namespace E @ ''/'' @ SHARED_TEXTURES_DIR @ ''/'' @ k @ ''.png''"

text \<open>The character class \<open>[0-9a-f]\<close>.\<close>

definition isHexLower :: "char \<Rightarrow> bool" where
  "isHexLower c = (c \<in> set ''0123456789abcdef'')"

text \<open>A match of \<open>${SHARED_TEXTURE_PREFIX}[0-9a-f]{64}\<close> against the whole string.\<close>

definition isStoreKey :: "string \<Rightarrow> bool" where
  "isStoreKey k =
     (take (length SHARED_TEXTURE_PREFIX) k = SHARED_TEXTURE_PREFIX \<and>
      length (drop (length SHARED_TEXTURE_PREFIX) k) = 64 \<and>
      list_all isHexLower (drop (length SHARED_TEXTURE_PREFIX) k))"

text \<open>
  \<open>name.match(/^(t[0-9a-f]{64})@2x\.png$/)\<close>: the first group of the match, if the
  name matches.
\<close>

definition matchFileName :: "string \<Rightarrow> string option" where
  "matchFileName name =
     (let n = length name - length ''@2x.png'' in
      if length ''@2x.png'' \<le> length name \<and> drop n name = ''@2x.png'' \<and> isStoreKey (take n name)
      then Some (take n name) else None)"

text \<open>The three index updates that end the loop body of \<open>init\<close> and \<open>register\<close>.\<close>

definition addEntry :: "Store \<Rightarrow> string \<Rightarrow> string \<Rightarrow> SharedTextureInfo \<Rightarrow> Store" where
  "addEntry st exactHash bk info =
     (let list = (case bucketToKeys st bk of None \<Rightarrow> [] | Some l \<Rightarrow> l) in
      \<lparr>exactHashToKey = (exactHashToKey st)(exactHash \<mapsto> key info),
       bucketToKeys = (bucketToKeys st)(bk \<mapsto> sort (list @ [key info])),
       keyToInfo = (keyToInfo st)(key info \<mapsto> info)\<rparr>)"

fun initLoop :: "Env \<Rightarrow> (string \<times> fnode) list \<Rightarrow> Store \<Rightarrow> error + Store" where
  "initLoop E [] st = Inr st"
| "initLoop E ((name, node) # entries) st =
     (case node of
        OtherEntry \<Rightarrow> initLoop E entries st
      | RegularFile buffer \<Rightarrow>
          (case matchFileName name of
             None \<Rightarrow> initLoop E entries st
           | Some keyFromName \<Rightarrow>
               (case decodePng E buffer of
                  None \<Rightarrow> Inl DecodeError
                | Some decoded \<Rightarrow>
                    let exactHash = hashPngPixels E decoded;
                        fp = computeFingerprint E decoded;
                        bk = bucketKey (width decoded) (height decoded) fp;
                        info = \<lparr>key = keyFromName, width = width decoded,
                                height = height decoded, fingerprint = fp,
                                filePath = pathJoin (sharedDir E) name,
                                texturePath = texturePathForKey E keyFromName\<rparr>
                    in initLoop E entries (addEntry st exactHash bk info))))"

definition init :: "Env \<Rightarrow> FsState \<Rightarrow> error + (Store \<times> FsState)" where
  "init E fs =
     (let fs1 = mkdir fs in
      if \<not> dirReadable fs1 then Inl ReaddirError
      else (case initLoop E (dirEntries fs1) emptyStore of
              Inl e \<Rightarrow> Inl e
            | Inr st \<Rightarrow> Inr (st, fs1)))"

section \<open>Registration\<close>

text \<open>
  \<open>totalPixels * (1 - DEDUPE_SIMILARITY_THRESHOLD)\<close> in doubles: the subtraction is exact
  (both operands are multiples of \<open>2 ^ -53\<close> in \<open>[1/2, 1]\<close>), the two products are
  rounded.
\<close>

definition allowedMismatches :: "nat \<Rightarrow> nat \<Rightarrow> nat" where
  "allowedMismatches w h =
     (let totalPixels = fl53 (w * h);
          allowedByRatio =
            fl53 (totalPixels * (2 ^ 53 - DEDUPE_SIMILARITY_THRESHOLD_M)) div 2 ^ 53
      in min allowedByRatio DEDUPE_MAX_MISMATCH_PIXELS)"

text \<open>
  The candidate scan. \<open>bestMismatches\<close> starts at \<open>Number.POSITIVE_INFINITY\<close>, hence
  \<open>enat\<close>; \<open>bestKey\<close> starts at \<open>null\<close>.
\<close>

fun scanCandidates ::
  "Env \<Rightarrow> Store \<Rightarrow> FsState \<Rightarrow> DecodedPng \<Rightarrow> nat \<Rightarrow> string list \<Rightarrow>
   string option \<times> enat \<Rightarrow> error + (string option \<times> enat)" where
  "scanCandidates E st fs decoded allowed [] best = Inr best"
| "scanCandidates E st fs decoded allowed (k # candidates) (bestKey, bestMismatches) =
     (case keyToInfo st k of
        None \<Rightarrow> scanCandidates E st fs decoded allowed candidates (bestKey, bestMismatches)
      | Some info \<Rightarrow>
          if SharedTextureInfo.width info \<noteq> width decoded \<or>
             SharedTextureInfo.height info \<noteq> height decoded
          then scanCandidates E st fs decoded allowed candidates (bestKey, bestMismatches)
          else
            (case fsReadFile E fs (filePath info) of
               None \<Rightarrow> Inl ReadFileError
             | Some candidateBuffer \<Rightarrow>
                 (case decodePng E candidateBuffer of
                    None \<Rightarrow> Inl DecodeError
                  | Some candidateDecoded \<Rightarrow>
                      if width candidateDecoded \<noteq> width decoded \<or>
                         height candidateDecoded \<noteq> height decoded
                      then scanCandidates E st fs decoded allowed candidates
                             (bestKey, bestMismatches)
                      else
                        let mismatches =
                              countMismatchedPixels (data decoded) (data candidateDecoded) allowed
                        in
                          if mismatches \<le> allowed \<and>
                             (enat mismatches < bestMismatches \<or>
                              (enat mismatches = bestMismatches \<and>
                               k < (case bestKey of None \<Rightarrow> ''~'' | Some b \<Rightarrow> b)))
                          then scanCandidates E st fs decoded allowed candidates
                                 (Some k, enat mismatches)
                          else scanCandidates E st fs decoded allowed candidates
                                 (bestKey, bestMismatches))))"

text \<open>Step 5 of \<open>register\<close>: the bitmap is new.\<close>

definition registerNew ::
  "Env \<Rightarrow> Store \<Rightarrow> FsState \<Rightarrow> nat list \<Rightarrow> DecodedPng \<Rightarrow> string \<Rightarrow> string \<Rightarrow> string \<Rightarrow>
   error + ((string \<times> string) \<times> Store \<times> FsState)" where
  "registerNew E st fs buffer decoded exactHash fp bk =
     (let k = SHARED_TEXTURE_PREFIX @ exactHash;
          fPath = pathJoin (sharedDir E) (k @ ''@2x.png'');
          tPath = texturePathForKey E k;
          info = \<lparr>key = k, width = width decoded, height = height decoded,
                  fingerprint = fp, filePath = fPath, texturePath = tPath\<rparr>
      in
        case (if \<not> exists E fs fPath then writeFileSafe E fs fPath buffer else Inr fs) of
          Inl e \<Rightarrow> Inl e
        | Inr fs' \<Rightarrow> Inr ((tPath, fPath), addEntry st exactHash bk info, fs'))"

text \<open>
  \<open>register\<close> returns the pair \<open>(texturePath, filePath)\<close>, the store and the directory
  after the call, or the error it rejects with. A string is truthy when it is not empty.
\<close>

definition register ::
  "Env \<Rightarrow> Store \<Rightarrow> FsState \<Rightarrow> nat list \<Rightarrow> error + ((string \<times> string) \<times> Store \<times> FsState)" where
  "register E st fs buffer =
     (case decodePng E buffer of
        None \<Rightarrow> Inl DecodeError
      | Some decoded \<Rightarrow>
          let exactHash = hashPngPixels E decoded;
              existing =
                (case exactHashToKey st exactHash of
                   None \<Rightarrow> None
                 | Some existingKey \<Rightarrow>
                     if existingKey \<noteq> [] then keyToInfo st existingKey else None)
          in
            case existing of
              Some info \<Rightarrow> Inr ((texturePath info, filePath info), st, fs)
            | None \<Rightarrow>
                let fp = computeFingerprint E decoded;
                    bk = bucketKey (width decoded) (height decoded) fp;
                    candidates = (case bucketToKeys st bk of None \<Rightarrow> [] | Some l \<Rightarrow> l);
                    allowed = allowedMismatches (width decoded) (height decoded)
                in
                  case scanCandidates E st fs decoded allowed candidates (None, \<infinity>) of
                    Inl e \<Rightarrow> Inl e
                  | Inr (bestKey, bestMismatches) \<Rightarrow>
                      (case (case bestKey of
                               None \<Rightarrow> None
                             | Some b \<Rightarrow> if b \<noteq> [] then
                                           map_option (\<lambda>info. (b, info)) (keyToInfo st b)
                                         else None) of
                         Some (b, info) \<Rightarrow>
                           Inr ((texturePath info, filePath info),
                                st\<lparr>exactHashToKey := (exactHashToKey st)(exactHash \<mapsto> b)\<rparr>,
                                fs)
                       | None \<Rightarrow> registerNew E st fs buffer decoded exactHash fp bk))"

section \<open>Garbage collection\<close>

text \<open>
  The regular expression of \<open>pruneUnusedSharedTextures\<close> is the escaped namespace,
  \<open>/Shared/\<close>, the group \<open>(t[0-9a-f]{64})\<close> and \<open>\.png\<close>: every match has the same
  length. \<open>matchHere\<close> is a match that starts at the head of the text.
\<close>

definition refPrefix :: "string \<Rightarrow> string" where
  "refPrefix ns = ns @ ''/'' @ SHARED_TEXTURES_DIR @ ''/''"

definition keyLength :: nat where
  "keyLength = length SHARED_TEXTURE_PREFIX + 64"

definition matchHere :: "string \<Rightarrow> string \<Rightarrow> string option" where
  "matchHere ns text =
     (let p = refPrefix ns; k = take keyLength (drop (length p) text) in
      if take (length p) text = p \<and> isStoreKey k \<and>
         take 4 (drop (length p + keyLength) text) = ''.png''
      then Some k else None)"

definition matchLength :: "string \<Rightarrow> nat" where
  "matchLength ns = length (refPrefix ns) + keyLength + 4"

text \<open>
  \<open>contents.matchAll(re)\<close> with the flag \<open>g\<close>: the leftmost match, then the search
  resumes behind it.
\<close>

lemma matchHere_length:
  assumes "matchHere ns text = Some k"
  shows "matchLength ns \<le> length text" and "0 < matchLength ns"
proof -
  have "take 4 (drop (length (refPrefix ns) + keyLength) text) = ''.png''"
    using assms by (simp add: matchHere_def Let_def split: if_splits)
  then have "length (take 4 (drop (length (refPrefix ns) + keyLength) text)) = 4"
    by simp
  then show "matchLength ns \<le> length text"
    by (simp add: matchLength_def)
  show "0 < matchLength ns" by (simp add: matchLength_def)
qed

lemma matchHere_shorter:
  "matchHere ns text = Some k \<Longrightarrow> length text - matchLength ns < length text"
  using matchHere_length [of ns "text" k] by arith

function matchAll :: "string \<Rightarrow> string \<Rightarrow> string list" where
  "matchAll ns text =
     (case matchHere ns text of
        Some k \<Rightarrow> k # matchAll ns (drop (matchLength ns) text)
      | None \<Rightarrow> (case text of [] \<Rightarrow> [] | c # rest \<Rightarrow> matchAll ns rest))"
  by pat_completeness auto
termination
  by (relation "measure (\<lambda>(ns, text). length text)")
     (auto intro: matchHere_shorter)

declare matchAll.simps [simp del]

definition endsWith :: "string \<Rightarrow> string \<Rightarrow> bool" where
  "endsWith s suffix =
     (length suffix \<le> length s \<and> drop (length s - length suffix) s = suffix)"

text \<open>
  \<open>usedKeys\<close>: the files of the output directory are given as pairs of path and
  contents, as \<open>listFilesRecursive\<close> and \<open>readFile\<close> deliver them.
\<close>

definition usedKeys :: "string \<Rightarrow> (string \<times> string) list \<Rightarrow> string set" where
  "usedKeys ns files =
     set (concat (map (\<lambda>(file, contents). matchAll ns contents)
                      (filter (\<lambda>(file, contents). endsWith file ''.ui'') files)))"

text \<open>
  The sweep: the entries that stay, and the number of deleted files. \<open>fsp.rm\<close> rejects
  in a directory that may not be written (\<open>force\<close> silences a missing file only), and
  the rejection is not caught: it ends the sweep at the first file to delete, before any
  file is gone.
\<close>

fun pruneLoop ::
  "bool \<Rightarrow> string set \<Rightarrow> (string \<times> fnode) list \<Rightarrow> error + ((string \<times> fnode) list \<times> nat)" where
  "pruneLoop writable used [] = Inr ([], 0)"
| "pruneLoop writable used ((name, node) # entries) =
     (let keep = (case pruneLoop writable used entries of
                    Inl e \<Rightarrow> Inl e
                  | Inr (kept, deleted) \<Rightarrow> Inr ((name, node) # kept, deleted))
      in
        case node of
          OtherEntry \<Rightarrow> keep
        | RegularFile buffer \<Rightarrow>
            (case matchFileName name of
               None \<Rightarrow> keep
             | Some k \<Rightarrow>
                 if k \<in> used then keep
                 else if \<not> writable then Inl RmError
                 else (case pruneLoop writable used entries of
                         Inl e \<Rightarrow> Inl e
                       | Inr (kept, deleted) \<Rightarrow> Inr (kept, deleted + 1))))"

definition pruneUnusedSharedTextures ::
  "string \<Rightarrow> (string \<times> string) list \<Rightarrow> FsState \<Rightarrow> error + (FsState \<times> nat)" where
  "pruneUnusedSharedTextures ns files fs =
     (if \<not> dirExists fs then Inr (fs, 0)
      else if \<not> dirReadable fs then Inl ReaddirError
      else
        case pruneLoop (dirWritable fs) (usedKeys ns files) (dirEntries fs) of
          Inl e \<Rightarrow> Inl e
        | Inr (kept, deleted) \<Rightarrow> Inr (fs\<lparr>dirEntries := kept\<rparr>, deleted))"

section \<open>Notions of the specification\<close>

text \<open>
  The index is consistent: every bucket list is sorted, and every key of a bucket list or
  of the digest map has its entry in the key map; an entry is filed under its own key.
\<close>

definition storeConsistent :: "Store \<Rightarrow> bool" where
  "storeConsistent st \<longleftrightarrow>
     (\<forall>b l. bucketToKeys st b = Some l \<longrightarrow>
        sorted l \<and> (\<forall>k \<in> set l. \<exists>info. keyToInfo st k = Some info \<and> key info = k)) \<and>
     (\<forall>h k. exactHashToKey st h = Some k \<longrightarrow>
        (\<exists>info. keyToInfo st k = Some info \<and> key info = k)) \<and>
     (\<forall>k info. keyToInfo st k = Some info \<longrightarrow> key info = k)"


text \<open>A directory entry that \<open>init\<close> takes for a persisted bitmap.\<close>

definition isStoreFile :: "string \<times> fnode \<Rightarrow> bool" where
  "isStoreFile e =
     (case snd e of OtherEntry \<Rightarrow> False | RegularFile buffer \<Rightarrow> matchFileName (fst e) \<noteq> None)"

definition decodable :: "Env \<Rightarrow> string \<times> fnode \<Rightarrow> bool" where
  "decodable E e =
     (case snd e of OtherEntry \<Rightarrow> False | RegularFile buffer \<Rightarrow> decodePng E buffer \<noteq> None)"

definition fileKey :: "string \<times> fnode \<Rightarrow> string" where
  "fileKey e = the (matchFileName (fst e))"

definition fileKeys :: "(string \<times> fnode) list \<Rightarrow> string list" where
  "fileKeys es = map fileKey (filter isStoreFile es)"

text \<open>
  What rehydration has to derive from a persisted bitmap: the file is decoded, its digest
  and its fingerprint are recomputed from the pixels, and the key is taken from the name.
  \<open>storeEntryOf\<close> is the StoreEntry of the file, \<open>digestOf\<close> and \<open>bucketOf\<close> are the
  keys under which the digest map and the bucket map file it.
\<close>

definition decodedOf :: "Env \<Rightarrow> string \<times> fnode \<Rightarrow> DecodedPng" where
  "decodedOf E e =
     the (case snd e of OtherEntry \<Rightarrow> None | RegularFile buffer \<Rightarrow> decodePng E buffer)"

definition storeEntryOf :: "Env \<Rightarrow> string \<times> fnode \<Rightarrow> SharedTextureInfo" where
  "storeEntryOf E e =
     \<lparr>key = fileKey e, width = width (decodedOf E e), height = height (decodedOf E e),
      fingerprint = computeFingerprint E (decodedOf E e),
      filePath = pathJoin (sharedDir E) (fst e),
      texturePath = texturePathForKey E (fileKey e)\<rparr>"

definition digestOf :: "Env \<Rightarrow> string \<times> fnode \<Rightarrow> string" where
  "digestOf E e = hashPngPixels E (decodedOf E e)"

definition bucketOf :: "Env \<Rightarrow> string \<times> fnode \<Rightarrow> string" where
  "bucketOf E e =
     bucketKey (width (decodedOf E e)) (height (decodedOf E e))
       (computeFingerprint E (decodedOf E e))"


text \<open>
  A textual occurrence of the reference path of key \<open>k\<close> in a document, in the spec's
  words.
\<close>

definition referencedIn :: "string \<Rightarrow> string \<Rightarrow> string \<Rightarrow> bool" where
  "referencedIn ns contents k \<longleftrightarrow>
     isStoreKey k \<and> (\<exists>pre post. contents = pre @ refPrefix ns @ k @ ''.png'' @ post)"

text \<open>The keys referenced across the generated documents, the files named \<open>*.ui\<close>.\<close>

definition referencedKeys :: "string \<Rightarrow> (string \<times> string) list \<Rightarrow> string set" where
  "referencedKeys ns files =
     {k. \<exists>(file, contents) \<in> set files. endsWith file ''.ui'' \<and> referencedIn ns contents k}"

text \<open>
  The reference path of key \<open>k\<close> occurs at position \<open>i\<close> of a document. In a document
  without overlap, an occurrence begins only behind the end of every earlier one, as in
  a document that quotes its paths.
\<close>

definition referencedAt :: "string \<Rightarrow> string \<Rightarrow> nat \<Rightarrow> string \<Rightarrow> bool" where
  "referencedAt ns contents i k \<longleftrightarrow>
     isStoreKey k \<and> (\<exists>post. drop i contents = refPrefix ns @ k @ ''.png'' @ post)"

definition nonOverlapping :: "string \<Rightarrow> string \<Rightarrow> bool" where
  "nonOverlapping ns contents \<longleftrightarrow>
     (\<forall>i j k l. referencedAt ns contents i k \<and> referencedAt ns contents j l \<and> i < j \<longrightarrow>
        i + matchLength ns \<le> j)"

text \<open>
  A namespace whose reference paths cannot overlap in any document: the first character
  of a path occurs nowhere else in a path (\<open>HTML\<close> is such a namespace).
\<close>

definition separating :: "string \<Rightarrow> bool" where
  "separating ns \<longleftrightarrow>
     hd (refPrefix ns) \<notin>
       set (tl (refPrefix ns)) \<union> set SHARED_TEXTURE_PREFIX \<union> {c. isHexLower c} \<union> set ''.png''"

text \<open>The persisted bitmaps that the sweep has to delete, given the keys in use.\<close>

definition unusedFile :: "string set \<Rightarrow> string \<times> fnode \<Rightarrow> bool" where
  "unusedFile used e \<longleftrightarrow> isStoreFile e \<and> fileKey e \<notin> used"


text \<open>
  What the loop body of the scan finds for one candidate: an error, nothing (the
  candidate is skipped or over budget), or its mismatch count within the budget.
\<close>

definition candidateMismatches ::
  "Env \<Rightarrow> Store \<Rightarrow> FsState \<Rightarrow> DecodedPng \<Rightarrow> nat \<Rightarrow> string \<Rightarrow> error + nat option" where
  "candidateMismatches E st fs decoded allowed k =
     (case keyToInfo st k of
        None \<Rightarrow> Inr None
      | Some info \<Rightarrow>
          if SharedTextureInfo.width info \<noteq> width decoded \<or>
             SharedTextureInfo.height info \<noteq> height decoded
          then Inr None
          else
            (case fsReadFile E fs (filePath info) of
               None \<Rightarrow> Inl ReadFileError
             | Some candidateBuffer \<Rightarrow>
                 (case decodePng E candidateBuffer of
                    None \<Rightarrow> Inl DecodeError
                  | Some candidateDecoded \<Rightarrow>
                      if width candidateDecoded \<noteq> width decoded \<or>
                         height candidateDecoded \<noteq> height decoded
                      then Inr None
                      else
                        let mismatches =
                              countMismatchedPixels (data decoded) (data candidateDecoded) allowed
                        in if mismatches \<le> allowed then Inr (Some mismatches) else Inr None)))"

text \<open>
  The ways in which \<open>register\<close> finds a bitmap in the store: the digest of its pixels
  is known and leads to an entry (an exact match), or a candidate of its bucket is within
  the budget (a near-duplicate match). \<open>ownFileName\<close> is the name of the file that
  \<open>register\<close> writes for a new bitmap.
\<close>

definition exactMatch :: "Env \<Rightarrow> Store \<Rightarrow> DecodedPng \<Rightarrow> bool" where
  "exactMatch E st d \<longleftrightarrow>
     (\<exists>k info. exactHashToKey st (hashPngPixels E d) = Some k \<and> k \<noteq> [] \<and>
        keyToInfo st k = Some info)"

definition nearMatch :: "Env \<Rightarrow> Store \<Rightarrow> FsState \<Rightarrow> DecodedPng \<Rightarrow> bool" where
  "nearMatch E st fs d \<longleftrightarrow>
     (\<exists>k \<in> set (case bucketToKeys st (bucketKey (width d) (height d) (computeFingerprint E d)) of
                  None \<Rightarrow> [] | Some l \<Rightarrow> l).
        \<exists>m. candidateMismatches E st fs d (allowedMismatches (width d) (height d)) k =
              Inr (Some m))"

definition ownFileName :: "Env \<Rightarrow> DecodedPng \<Rightarrow> string" where
  "ownFileName E d = SHARED_TEXTURE_PREFIX @ hashPngPixels E d @ ''@2x.png''"

text \<open>The update of \<open>bestKey\<close> and \<open>bestMismatches\<close> by a candidate within the budget.\<close>

definition pickBest :: "string option \<times> enat \<Rightarrow> string \<Rightarrow> nat \<Rightarrow> string option \<times> enat" where
  "pickBest best k m =
     (if enat m < snd best \<or>
         (enat m = snd best \<and> k < (case fst best of None \<Rightarrow> ''~'' | Some b \<Rightarrow> b))
      then (Some k, enat m) else best)"


text \<open>The best candidate so far is no worse than the candidate \<open>(k, m)\<close>.\<close>

definition atMost :: "string option \<times> enat \<Rightarrow> string \<Rightarrow> nat \<Rightarrow> bool" where
  "atMost best k m \<longleftrightarrow>
     (\<exists>b n. best = (Some b, enat n) \<and> (n < m \<or> (n = m \<and> b \<le> k)))"

definition wellFormed :: "string option \<times> enat \<Rightarrow> bool" where
  "wellFormed best \<longleftrightarrow> best = (None, \<infinity>) \<or> (\<exists>b n. best = (Some b, enat n))"


text \<open>The byte offsets that the loop of \<open>countMismatchedPixels\<close> visits from \<open>i\<close> on.\<close>

function pixelOffsets :: "nat \<Rightarrow> nat \<Rightarrow> nat list" where
  "pixelOffsets i n = (if i < n then i # pixelOffsets (i + 4) n else [])"
  by pat_completeness auto
termination
  by (relation "measure (\<lambda>(i, n). n - i)") auto

declare pixelOffsets.simps [simp del]

text \<open>The number of pixels at which two buffers mismatch, without the early exit.\<close>

definition mismatchedPixels :: "nat list \<Rightarrow> nat list \<Rightarrow> nat" where
  "mismatchedPixels a b = length (filter (pixelMismatch a b) (pixelOffsets 0 (length a)))"


text \<open>The digest is printed as 64 lower-case hexadecimal digits.\<close>

definition hexDigests :: "Env \<Rightarrow> bool" where
  "hexDigests E \<longleftrightarrow> (\<forall>x. length (sha256 E x) = 64 \<and> list_all isHexLower (sha256 E x))"








section \<open>An example environment\<close>

text \<open>
  The theorems below hold for every digest and every decoder. Where a theorem is applied
  to a concrete store, the environment is instantiated with a stand-in digest, the first
  32 bytes of the input (padded with zeros) as 64 hexadecimal digits, and with a decoder of
  a toy format: a width byte, a height byte, the RGBA bytes of the pixels, and trailing
  bytes that the decoder ignores (as a PNG decoder ignores ancillary chunks). The examples
  use inputs that this digest separates, as SHA-256 does.
\<close>

definition exHexByte :: "nat \<Rightarrow> string" where
  "exHexByte b = [''0123456789abcdef'' ! (b div 16 mod 16), ''0123456789abcdef'' ! (b mod 16)]"

definition exDigest :: "nat list \<Rightarrow> string" where
  "exDigest bytes =
     concat (map exHexByte (take 32 (bytes @
       [0, 0, 0, 0, 0, 0, 0, 0, 0, 0, 0, 0, 0, 0, 0, 0,
        0, 0, 0, 0, 0, 0, 0, 0, 0, 0, 0, 0, 0, 0, 0, 0])))"

definition exDecode :: "nat list \<Rightarrow> DecodedPng option" where
  "exDecode buffer =
     (case buffer of
        w # h # rest \<Rightarrow>
          if 0 < w \<and> 0 < h \<and> w * h * 4 \<le> length rest
          then Some \<lparr>width = w, height = h, data = take (w * h * 4) rest\<rparr>
          else None
      | _ \<Rightarrow> None)"

definition exEnv :: Env where
  "exEnv = \<lparr>sha256 = exDigest, pngSyncRead = exDecode,
            sharedDir = ''res/Common/UI/Custom/HTML/Shared'', namespace = ''HTML''\<rparr>"

definition exEmptyDir :: FsState where
  "exEmptyDir = \<lparr>dirExists = True, dirReadable = True, dirWritable = True, dirEntries = []\<rparr>"

definition exBitmap :: "nat \<Rightarrow> nat list" where
  "exBitmap v = [1, 1, v, 100, 100, 255]"

definition exDecoded :: "nat \<Rightarrow> DecodedPng" where
  "exDecoded v = \<lparr>width = 1, height = 1, data = [v, 100, 100, 255]\<rparr>"

definition exKey :: "nat \<Rightarrow> string" where
  "exKey v = SHARED_TEXTURE_PREFIX @ hashPngPixels exEnv (exDecoded v)"

definition exFile :: "nat \<Rightarrow> string \<times> fnode" where
  "exFile v = (exKey v @ ''@2x.png'', RegularFile (exBitmap v))"

definition exRef :: "nat \<Rightarrow> string \<times> string" where
  "exRef v = (texturePathForKey exEnv (exKey v), pathJoin (sharedDir exEnv) (exKey v @ ''@2x.png''))"

definition exInfo :: "nat \<Rightarrow> SharedTextureInfo" where
  "exInfo v = \<lparr>key = exKey v, width = 1, height = 1,
               fingerprint = computeFingerprint exEnv (exDecoded v),
               filePath = pathJoin (sharedDir exEnv) (exKey v @ ''@2x.png''),
               texturePath = texturePathForKey exEnv (exKey v)\<rparr>"

definition exBucket :: "nat \<Rightarrow> string" where
  "exBucket v = bucketKey 1 1 (computeFingerprint exEnv (exDecoded v))"

text \<open>
  A run of the store from an empty directory: the bitmap with the red value 108 is
  registered (\<open>exStore1\<close>, \<open>exDir1\<close>), then 104, which collapses onto it
  (\<open>exStore2\<close>), then 100, which becomes a second entry (\<open>exStore3\<close>, \<open>exDir3\<close>).
  \<open>exStoreR\<close> is the index rehydrated from \<open>exDir3\<close>.
\<close>

definition exStore1 :: Store where
  "exStore1 = addEntry emptyStore (hashPngPixels exEnv (exDecoded 108)) (exBucket 108) (exInfo 108)"

definition exDir1 :: FsState where
  "exDir1 = \<lparr>dirExists = True, dirReadable = True, dirWritable = True,
             dirEntries = [exFile 108]\<rparr>"

definition exStore2 :: Store where
  "exStore2 = exStore1\<lparr>exactHashToKey :=
     (exactHashToKey exStore1)(hashPngPixels exEnv (exDecoded 104) \<mapsto> exKey 108)\<rparr>"


definition exDir3 :: FsState where
  "exDir3 = \<lparr>dirExists = True, dirReadable = True, dirWritable = True,
             dirEntries = [exFile 108, exFile 100]\<rparr>"

definition exStoreR :: Store where
  "exStoreR = addEntry exStore1 (hashPngPixels exEnv (exDecoded 100)) (exBucket 100) (exInfo 100)"

text \<open>Directories with foreign entries, and generated documents.\<close>

definition exDirMixed :: FsState where
  "exDirMixed = \<lparr>dirExists = True, dirReadable = True, dirWritable = True,
     dirEntries = [(''readme.txt'', RegularFile [7, 2, 3]), exFile 108, (''thumbs'', OtherEntry),
                   exFile 100, (''t12@2x.png'', RegularFile [])]\<rparr>"

definition exDocs :: "(string \<times> string) list" where
  "exDocs = [(''ui/Page.ui'', ''a'' @ fst (exRef 100) @ ''b'' @ fst (exRef 108)),
             (''ui/old.txt'', fst (exRef 104))]"

text \<open>
  A document of the namespace \<open>game\<close> in which two reference paths overlap: the last
  character of the first is the first character of the second.
\<close>

definition exOverlap :: string where
  "exOverlap = refPrefix ''game'' @ exKey 100 @ ''.pn'' @ refPrefix ''game'' @ exKey 108 @ ''.png''"

definition exDirGc :: FsState where
  "exDirGc = \<lparr>dirExists = True, dirReadable = True, dirWritable = True,
     dirEntries = [exFile 100, exFile 104, (''readme.txt'', RegularFile [7, 2, 3]), exFile 108]\<rparr>"

section \<open>Index consistency\<close>

lemma emptyStore_consistent: "storeConsistent emptyStore"
  by (simp add: storeConsistent_def emptyStore_def)

lemma addEntry_sel:
  "exactHashToKey (addEntry st h bk info) = (exactHashToKey st)(h \<mapsto> key info)"
  "keyToInfo (addEntry st h bk info) = (keyToInfo st)(key info \<mapsto> info)"
  "bucketToKeys (addEntry st h bk info) =
     (bucketToKeys st)(bk \<mapsto> sort ((case bucketToKeys st bk of None \<Rightarrow> [] | Some l \<Rightarrow> l) @ [key info]))"
  by (simp_all add: addEntry_def Let_def)

lemma addEntry_consistent:
  assumes c: "storeConsistent st"
  shows "storeConsistent (addEntry st h bk info)"
proof -
  let ?has = "\<lambda>m k. \<exists>i. m k = Some i \<and> key i = k"
  let ?m' = "(keyToInfo st)(key info \<mapsto> info)"
  have keep: "?has ?m' k" if "?has (keyToInfo st) k" for k
    using that by auto
  have new: "?has ?m' (key info)" by simp
  have buckets: "sorted l \<and> (\<forall>k \<in> set l. ?has ?m' k)"
    if l: "bucketToKeys (addEntry st h bk info) b = Some l" for b l
  proof (cases "b = bk")
    case False
    then have "bucketToKeys st b = Some l" using l by (simp add: addEntry_sel)
    then show ?thesis using c keep unfolding storeConsistent_def by blast
  next
    case True
    let ?old = "case bucketToKeys st bk of None \<Rightarrow> [] | Some l \<Rightarrow> l"
    have leq: "l = sort (?old @ [key info])" using l True by (simp add: addEntry_sel)
    have "\<forall>k \<in> set ?old. ?has (keyToInfo st) k"
      using c unfolding storeConsistent_def by (cases "bucketToKeys st bk") auto
    then have "\<forall>k \<in> set l. ?has ?m' k"
      unfolding leq using keep new by auto
    then show ?thesis by (simp add: leq)
  qed
  have digests: "?has ?m' k" if "exactHashToKey (addEntry st h bk info) d = Some k" for d k
  proof (cases "d = h")
    case True
    then show ?thesis using that new by (simp add: addEntry_sel)
  next
    case False
    then have "exactHashToKey st d = Some k" using that by (simp add: addEntry_sel)
    then show ?thesis using c keep unfolding storeConsistent_def by blast
  qed
  have fields: "key i = k" if "?m' k = Some i" for k i
    using that c unfolding storeConsistent_def by (auto split: if_splits)
  show ?thesis
    unfolding storeConsistent_def addEntry_sel(2)
    using buckets digests fields by blast
qed

lemma initLoop_consistent:
  "storeConsistent st \<Longrightarrow> initLoop E es st = Inr st' \<Longrightarrow> storeConsistent st'"
proof (induction es arbitrary: st)
  case Nil
  then show ?case by simp
next
  case (Cons e es)
  obtain name node where e: "e = (name, node)" by (cases e)
  show ?case
  proof (cases node)
    case OtherEntry
    then show ?thesis using Cons e by simp
  next
    case (RegularFile buffer)
    show ?thesis
    proof (cases "matchFileName name")
      case None
      then show ?thesis using Cons e RegularFile by simp
    next
      case (Some k)
      show ?thesis
      proof (cases "decodePng E buffer")
        case None
        then show ?thesis using Cons.prems e RegularFile Some by simp
      next
        case (Some decoded)
        show ?thesis
          using Cons.prems(2) e RegularFile \<open>matchFileName name = Some k\<close> Some
            Cons.IH [OF addEntry_consistent [OF Cons.prems(1)]]
          by (simp add: Let_def)
      qed
    qed
  qed
qed

lemma alias_consistent:
  assumes "storeConsistent st" and "keyToInfo st b = Some info"
  shows "storeConsistent (st\<lparr>exactHashToKey := (exactHashToKey st)(h \<mapsto> b)\<rparr>)"
  using assms unfolding storeConsistent_def by auto

lemma registerNew_consistent:
  assumes "storeConsistent st" and "registerNew E st fs buffer decoded h fp bk = Inr (r, st', fs')"
  shows "storeConsistent st'"
  using assms addEntry_consistent
  by (auto simp: registerNew_def Let_def split: sum.splits if_splits)

lemma register_consistent:
  assumes "storeConsistent st" and "register E st fs buffer = Inr (r, st', fs')"
  shows "storeConsistent st'"
  using assms alias_consistent registerNew_consistent
  unfolding register_def Let_def
  by (auto split: option.splits sum.splits prod.splits if_splits)

text \<open>
  Claim C9. The consistency of the index (sorted bucket lists, an entry for every key of
  a bucket list and of the digest map) holds after \<open>init\<close> and is preserved by every
  \<open>register\<close>.
\<close>

theorem index_consistency_preserved:
  "(init E fs = Inr (st, fs') \<longrightarrow> storeConsistent st) \<and>
   (storeConsistent stA \<longrightarrow> register E stA fsA buffer = Inr (r, stB, fsB) \<longrightarrow> storeConsistent stB)"
  using initLoop_consistent [OF emptyStore_consistent] register_consistent
  by (auto simp: init_def Let_def split: if_splits sum.splits)

section \<open>Rehydration of an unreadable directory\<close>

text \<open>
  Claim C10. If the persistence directory exists but cannot be listed, \<open>init\<close> fails:
  \<open>mkdir\<close> leaves the existing directory as it is and the rejection of \<open>readdir\<close> is
  not caught, so no store is produced. (The source has no error class of its own; the
  error is the one \<open>readdir\<close> rejects with.)
\<close>

theorem init_unreadable_fails:
  assumes "dirExists fs" and "\<not> dirReadable fs"
  shows "init E fs = Inl ReaddirError"
  using assms by (simp add: init_def mkdir_def)

theorem init_unreadable_fails_witness:
  "init exEnv \<lparr>dirExists = True, dirReadable = False, dirWritable = True,
                dirEntries = [(''a.txt'', RegularFile [1, 2, 3])]\<rparr> = Inl ReaddirError"
  using init_unreadable_fails
    [of "\<lparr>dirExists = True, dirReadable = False, dirWritable = True,
           dirEntries = [(''a.txt'', RegularFile [1, 2, 3])]\<rparr>" exEnv]
  by simp

section \<open>The mismatch budget\<close>

lemma threshold_is_nearest_double:
  "2 ^ 52 \<le> DEDUPE_SIMILARITY_THRESHOLD_M \<and> DEDUPE_SIMILARITY_THRESHOLD_M < 2 ^ 53 \<and>
   \<bar>real DEDUPE_SIMILARITY_THRESHOLD_M / 2 ^ 53 - 0.999\<bar> < 1 / 2 ^ 54"
  by (simp add: DEDUPE_SIMILARITY_THRESHOLD_M_def abs_if field_simps)

lemma fl53_small: "n < 2 ^ 53 \<Longrightarrow> fl53 n = n"
  by (simp add: fl53_def floorlog_le_iff)

lemma fl53_large_bounds:
  assumes "53 < floorlog 2 n"
  shows "(n div 2 ^ (floorlog 2 n - 53)) * 2 ^ (floorlog 2 n - 53) \<le> fl53 n"
    and "fl53 n \<le> (n div 2 ^ (floorlog 2 n - 53) + 1) * 2 ^ (floorlog 2 n - 53)"
  using assms by (simp_all add: fl53_def Let_def)

lemma fl53_large_ge:
  assumes "53 < floorlog 2 n"
  shows "2 ^ (floorlog 2 n - 1) \<le> fl53 n"
proof -
  let ?l = "floorlog 2 n" and ?e = "floorlog 2 n - 53"
  have n0: "0 < n" using assms by (auto simp: floorlog_def split: if_splits)
  have "(2::nat) ^ (?l - 1) \<le> n" using floorlog_bounds [of n 2] n0 by simp
  moreover have le: "?l - 1 = 52 + ?e" using assms by simp
  have p: "(2::nat) ^ (?l - 1) = 2 ^ 52 * 2 ^ ?e"
    by (simp only: le power_add)
  note p
  ultimately have "2 ^ 52 * 2 ^ ?e \<le> n" by simp
  then have "2 ^ 52 \<le> n div 2 ^ ?e"
    by (simp add: less_eq_div_iff_mult_less_eq)
  then have "2 ^ 52 * 2 ^ ?e \<le> (n div 2 ^ ?e) * 2 ^ ?e" by simp
  also have "\<dots> \<le> fl53 n" using fl53_large_bounds(1) [OF assms] .
  finally show ?thesis using p by simp
qed

lemma fl53_ge_pow2:
  assumes "2 ^ j \<le> n"
  shows "2 ^ j \<le> fl53 n"
proof (cases "floorlog 2 n \<le> 53")
  case True
  then show ?thesis using assms by (simp add: fl53_def)
next
  case False
  then have big: "53 < floorlog 2 n" by simp
  have n0: "0 < n" using big by (auto simp: floorlog_def split: if_splits)
  have "n < 2 ^ floorlog 2 n" using floorlog_bounds [of n 2] n0 by simp
  with assms have "(2::nat) ^ j < 2 ^ floorlog 2 n" by linarith
  then have "j < floorlog 2 n"
    using power_less_imp_less_exp [of 2 j "floorlog 2 n"] by simp
  then have a: "(2::nat) ^ j \<le> 2 ^ (floorlog 2 n - 1)"
    by (intro power_increasing) simp_all
  show ?thesis by (rule order_trans [OF a fl53_large_ge [OF big]])
qed

lemma fl53_ge_small:
  assumes "m \<le> n" and "m < 2 ^ 53"
  shows "m \<le> fl53 n"
proof (cases "floorlog 2 n \<le> 53")
  case True
  then show ?thesis using assms by (simp add: fl53_def)
next
  case False
  then have big: "53 < floorlog 2 n" by simp
  then have "(2::nat) ^ 53 \<le> 2 ^ (floorlog 2 n - 1)"
    using power_increasing [of 53 "floorlog 2 n - 1" "2::nat"] by simp
  then show ?thesis using fl53_large_ge [OF big] assms by simp
qed

lemma ratio_small:
  assumes "n < 64000"
  shows "fl53 (n * 9007199254741) div 2 ^ 53 = n div 1000"
proof -
  define k r N where "k = n div 1000" and "r = n mod 1000" and "N = n * 9007199254741"
  have n: "n = 1000 * k + r" and r: "r < 1000" and k: "k \<le> 63"
    using assms by (simp_all add: k_def r_def)
  have N: "N = k * 9007199254741000 + r * 9007199254741"
    by (simp add: N_def n algebra_simps)
  have lo: "k * 2 ^ 53 \<le> N" using N by simp
  have hi: "N + 128 < (k + 1) * 2 ^ 53" using N r k by simp
  have "k * 2 ^ 53 \<le> fl53 N \<and> fl53 N < (k + 1) * 2 ^ 53"
  proof (cases "floorlog 2 N \<le> 53")
    case True
    then show ?thesis using lo hi by (simp add: fl53_def)
  next
    case False
    then have big: "53 < floorlog 2 N" by simp
    define e where "e = floorlog 2 N - 53"
    have "N < 2 ^ 60" using hi k by simp
    then have "floorlog 2 N \<le> 60" by (simp add: floorlog_le_iff)
    then have e: "e \<le> 7" "0 < e" using big by (simp_all add: e_def)
    have pe: "(2::nat) ^ e \<le> 128"
      using power_increasing [of e 7 "2::nat"] e by simp
    have split: "(2::nat) ^ 53 = 2 ^ (53 - e) * 2 ^ e"
      using e by (simp flip: power_add)
    have "k * 2 ^ (53 - e) * 2 ^ e \<le> N" using lo split by (simp add: mult.assoc)
    then have "k * 2 ^ (53 - e) \<le> N div 2 ^ e"
      by (simp add: less_eq_div_iff_mult_less_eq)
    then have "k * 2 ^ (53 - e) * 2 ^ e \<le> (N div 2 ^ e) * 2 ^ e" by simp
    moreover have "k * 2 ^ 53 = k * 2 ^ (53 - e) * 2 ^ e"
      by (subst split) (simp only: mult.assoc)
    ultimately have "k * 2 ^ 53 \<le> (N div 2 ^ e) * 2 ^ e" by (simp only:)
    then have l: "k * 2 ^ 53 \<le> fl53 N"
      using fl53_large_bounds(1) [OF big] by (simp add: e_def)
    have "(N div 2 ^ e) * 2 ^ e \<le> N" by simp
    moreover have "(N div 2 ^ e + 1) * 2 ^ e = (N div 2 ^ e) * 2 ^ e + 2 ^ e"
      by (simp add: algebra_simps)
    ultimately have "(N div 2 ^ e + 1) * 2 ^ e \<le> N + 128" using pe by linarith
    then have "fl53 N \<le> N + 128"
      using fl53_large_bounds(2) [OF big] by (simp add: e_def)
    then show ?thesis using l hi by simp
  qed
  then have "fl53 N div 2 ^ 53 = k"
    by (intro div_nat_eqI) (simp_all add: mult.commute)
  then show ?thesis unfolding N_def k_def .
qed

lemma ratio_large:
  assumes "64000 \<le> n"
  shows "64 \<le> fl53 (fl53 n * 9007199254741) div 2 ^ 53"
proof -
  have "64000 \<le> fl53 n" using fl53_ge_small [of 64000 n] assms by simp
  then have "2 ^ 59 \<le> fl53 n * 9007199254741" by simp
  then have "2 ^ 59 \<le> fl53 (fl53 n * 9007199254741)" by (rule fl53_ge_pow2)
  then have "64 * 2 ^ 53 \<le> fl53 (fl53 n * 9007199254741)" by simp
  then show ?thesis by (simp add: less_eq_div_iff_mult_less_eq)
qed

lemma floor_ratio: "nat \<lfloor>real n * (1 - 0.999)\<rfloor> = n div 1000"
proof -
  have "real n * (1 - 0.999) = real n / real 1000" by simp
  then show ?thesis by (simp only: floor_divide_of_nat_eq nat_int)
qed

lemma allowedMismatches_exact: "allowedMismatches w h = min ((w * h) div 1000) 64"
proof (cases "w * h < 64000")
  case True
  then have "fl53 (w * h) = w * h" by (simp add: fl53_small)
  then show ?thesis
    using ratio_small [OF True]
    by (simp add: allowedMismatches_def DEDUPE_SIMILARITY_THRESHOLD_M_def
        DEDUPE_MAX_MISMATCH_PIXELS_def)
next
  case False
  then have "64 \<le> (w * h) div 1000" by simp
  then show ?thesis
    using ratio_large [of "w * h"] False
    by (simp add: allowedMismatches_def DEDUPE_SIMILARITY_THRESHOLD_M_def
        DEDUPE_MAX_MISMATCH_PIXELS_def)
qed

text \<open>
  Claim C5. For a decoded buffer of width \<open>w\<close> and height \<open>h\<close>, \<open>register\<close> takes
  \<open>allowedMismatches w h\<close> as its budget, and that number, computed in doubles as the
  source does, is \<open>min (floor (w * h * (1 - 0.999))) 64\<close> in exact arithmetic.
\<close>

theorem allowed_budget_formula:
  "allowedMismatches w h = min (nat \<lfloor>real (w * h) * (1 - 0.999)\<rfloor>) 64"
  by (simp only: allowedMismatches_exact floor_ratio)

section \<open>Rehydration\<close>

lemma matchFileName_name: "matchFileName name = Some k \<Longrightarrow> name = k @ ''@2x.png''"
  by (auto simp: matchFileName_def Let_def split: if_splits)
     (metis append_take_drop_id)

lemma initLoop_skip:
  "\<not> isStoreFile e \<Longrightarrow> initLoop E (e # es) st = initLoop E es st"
  by (cases e) (auto simp: isStoreFile_def split: fnode.splits option.splits)

lemma initLoop_take:
  assumes "isStoreFile e"
  shows "\<exists>buffer k. e = (k @ ''@2x.png'', RegularFile buffer) \<and> matchFileName (fst e) = Some k \<and>
     initLoop E (e # es) st =
       (case decodePng E buffer of
          None \<Rightarrow> Inl DecodeError
        | Some decoded \<Rightarrow>
            initLoop E es
              (addEntry st (hashPngPixels E decoded)
                 (bucketKey (width decoded) (height decoded) (computeFingerprint E decoded))
                 \<lparr>key = k, width = width decoded, height = height decoded,
                   fingerprint = computeFingerprint E decoded,
                   filePath = pathJoin (sharedDir E) (fst e),
                   texturePath = texturePathForKey E k\<rparr>))"
proof -
  obtain name node where e: "e = (name, node)" by (cases e)
  from assms obtain buffer k where n: "node = RegularFile buffer" "matchFileName name = Some k"
    by (auto simp: isStoreFile_def e split: fnode.splits)
  then have "name = k @ ''@2x.png''" by (simp add: matchFileName_name)
  then show ?thesis using n e by (auto simp: Let_def split: option.splits)
qed


lemma initLoop_filter: "initLoop E (filter isStoreFile es) st = initLoop E es st"
proof (induction es arbitrary: st)
  case Nil
  then show ?case by simp
next
  case (Cons e es)
  show ?case
  proof (cases "isStoreFile e")
    case False
    then show ?thesis using Cons.IH by (simp add: initLoop_skip)
  next
    case True
    then show ?thesis
      using initLoop_take [OF True, of E es st] initLoop_take [OF True, of E "filter isStoreFile es" st]
        Cons.IH
      by (auto split: option.splits)
  qed
qed


lemma fileKeys_distinct:
  assumes "distinct (map fst es)"
  shows "distinct (fileKeys es)"
proof -
  have inj: "inj_on fileKey (set (filter isStoreFile es))"
  proof (rule inj_onI)
    fix a b
    assume a: "a \<in> set (filter isStoreFile es)" and b: "b \<in> set (filter isStoreFile es)"
      and eq: "fileKey a = fileKey b"
    from a b obtain ka kb where k: "matchFileName (fst a) = Some ka" "matchFileName (fst b) = Some kb"
      by (auto simp: isStoreFile_def split: fnode.splits)
    with eq have "ka = kb" by (simp add: fileKey_def)
    then have "fst a = fst b"
      using matchFileName_name [OF k(1)] matchFileName_name [OF k(2)] by simp
    moreover have "a \<in> set es" "b \<in> set es" using a b by simp_all
    ultimately show "a = b" using assms by (meson distinct_map inj_onD)
  qed
  have "distinct (filter isStoreFile es)"
    using assms by (simp add: distinct_map)
  then show ?thesis unfolding fileKeys_def using inj by (simp add: distinct_map)
qed

lemma sort_sort_append: "sort (sort xs @ ys) = sort (xs @ ys)"
  by (rule properties_for_sort) simp_all

lemma map_add_snoc: "m(k \<mapsto> v) ++ map_of (rev l) = m ++ map_of (rev ((k, v) # l))"
proof -
  have "m(k \<mapsto> v) = m ++ [k \<mapsto> v]" by simp
  then show ?thesis by (simp only: rev.simps map_of_append map_add_assoc map_of.simps fst_conv snd_conv)
qed

text \<open>
  The index that the loop of \<open>init\<close> builds, from any index it starts with: a later file
  overwrites the entry and the digest of an earlier one, and a bucket list is the sorted
  list of what it held and of the keys of the files of that bucket.
\<close>

lemma initLoop_index:
  assumes "\<forall>e \<in> set es. isStoreFile e \<longrightarrow> decodable E e"
  shows "\<exists>st'. initLoop E es st = Inr st' \<and>
     keyToInfo st' =
       keyToInfo st ++
         map_of (rev (map (\<lambda>e. (fileKey e, storeEntryOf E e)) (filter isStoreFile es))) \<and>
     exactHashToKey st' =
       exactHashToKey st ++
         map_of (rev (map (\<lambda>e. (digestOf E e, fileKey e)) (filter isStoreFile es))) \<and>
     (\<forall>b. bucketToKeys st' b =
        (let ks = map fileKey (filter (\<lambda>e. isStoreFile e \<and> bucketOf E e = b) es) in
         if ks = [] then bucketToKeys st b
         else Some (sort ((case bucketToKeys st b of None \<Rightarrow> [] | Some l \<Rightarrow> l) @ ks))))"
  using assms
proof (induction es arbitrary: st)
  case Nil
  then show ?case by simp
next
  case (Cons e es)
  show ?case
  proof (cases "isStoreFile e")
    case False
    then show ?thesis using Cons by (simp add: initLoop_skip)
  next
    case True
    from initLoop_take [OF True, of E es st] obtain buffer k where
      e: "e = (k @ ''@2x.png'', RegularFile buffer)" "matchFileName (fst e) = Some k" and
      step: "initLoop E (e # es) st =
       (case decodePng E buffer of
          None \<Rightarrow> Inl DecodeError
        | Some decoded \<Rightarrow>
            initLoop E es
              (addEntry st (hashPngPixels E decoded)
                 (bucketKey (width decoded) (height decoded) (computeFingerprint E decoded))
                 \<lparr>key = k, width = width decoded, height = height decoded,
                   fingerprint = computeFingerprint E decoded,
                   filePath = pathJoin (sharedDir E) (fst e),
                   texturePath = texturePathForKey E k\<rparr>))"
      by blast
    have "decodable E e" using Cons.prems True by simp
    then obtain d where d: "decodePng E buffer = Some d"
      by (auto simp: decodable_def e)
    have fk: "fileKey e = k" using e(2) by (simp add: fileKey_def)
    have dec: "decodedOf E e = d" using d by (simp add: decodedOf_def e(1))
    define st1 where "st1 = addEntry st (digestOf E e) (bucketOf E e) (storeEntryOf E e)"
    have run: "initLoop E (e # es) st = initLoop E es st1"
      unfolding step d st1_def
      by (simp add: digestOf_def bucketOf_def storeEntryOf_def dec fk)
    have sel:
      "keyToInfo st1 = (keyToInfo st)(fileKey e \<mapsto> storeEntryOf E e)"
      "exactHashToKey st1 = (exactHashToKey st)(digestOf E e \<mapsto> fileKey e)"
      "bucketToKeys st1 =
         (bucketToKeys st)(bucketOf E e \<mapsto>
            sort ((case bucketToKeys st (bucketOf E e) of None \<Rightarrow> [] | Some l \<Rightarrow> l) @ [fileKey e]))"
      unfolding st1_def by (simp_all add: addEntry_sel storeEntryOf_def)
    from Cons.IH [of st1] Cons.prems obtain st' where
      loop: "initLoop E es st1 = Inr st'" and
      infos: "keyToInfo st' =
         keyToInfo st1 ++
           map_of (rev (map (\<lambda>e. (fileKey e, storeEntryOf E e)) (filter isStoreFile es)))" and
      digests: "exactHashToKey st' =
         exactHashToKey st1 ++
           map_of (rev (map (\<lambda>e. (digestOf E e, fileKey e)) (filter isStoreFile es)))" and
      buckets: "\<And>b. bucketToKeys st' b =
        (let ks = map fileKey (filter (\<lambda>e. isStoreFile e \<and> bucketOf E e = b) es) in
         if ks = [] then bucketToKeys st1 b
         else Some (sort ((case bucketToKeys st1 b of None \<Rightarrow> [] | Some l \<Rightarrow> l) @ ks)))"
      by auto
    have one: "keyToInfo st' =
       keyToInfo st ++
         map_of (rev (map (\<lambda>e. (fileKey e, storeEntryOf E e)) (filter isStoreFile (e # es))))"
      unfolding infos sel(1) using True by (simp only: map_add_snoc filter.simps if_True list.map)
    have two: "exactHashToKey st' =
       exactHashToKey st ++
         map_of (rev (map (\<lambda>e. (digestOf E e, fileKey e)) (filter isStoreFile (e # es))))"
      unfolding digests sel(2) using True by (simp only: map_add_snoc filter.simps if_True list.map)
    have three: "bucketToKeys st' b =
        (let ks = map fileKey (filter (\<lambda>e. isStoreFile e \<and> bucketOf E e = b) (e # es)) in
         if ks = [] then bucketToKeys st b
         else Some (sort ((case bucketToKeys st b of None \<Rightarrow> [] | Some l \<Rightarrow> l) @ ks)))" for b
    proof (cases "bucketOf E e = b")
      case False
      then show ?thesis unfolding buckets [of b] sel(3) by simp
    next
      case same: True
      then show ?thesis
        unfolding buckets [of b] sel(3) using True
        by (simp add: Let_def sort_sort_append)
    qed
    show ?thesis
      unfolding run using loop one two three by blast
  qed
qed

text \<open>
  Claim C6. A readable directory whose persisted bitmaps all decode, among entries of any
  other kind: \<open>init\<close> succeeds and the index has exactly one entry for each of the N
  files that match the naming convention. The entry of a file is its StoreEntry, filed
  under the key of its name; the digest map sends the digest of every persisted bitmap
  to the key of the last file with that digest; the bucket map sends a bucket to the
  sorted list of the keys of its files. Nothing of the other M entries enters the index:
  it is the index that the matching files alone produce.
\<close>

theorem rehydration_counts_store_files:
  assumes "dirExists fs" and "dirReadable fs"
    and "distinct (map fst (dirEntries fs))"
    and "\<forall>e \<in> set (dirEntries fs). isStoreFile e \<longrightarrow> decodable E e"
  shows "\<exists>st. init E fs = Inr (st, fs) \<and>
           card (dom (keyToInfo st)) = length (filter isStoreFile (dirEntries fs)) \<and>
           dom (keyToInfo st) = set (fileKeys (dirEntries fs)) \<and>
           (\<forall>e \<in> set (dirEntries fs). isStoreFile e \<longrightarrow>
              keyToInfo st (fileKey e) = Some (storeEntryOf E e)) \<and>
           exactHashToKey st =
             map_of (rev (map (\<lambda>e. (digestOf E e, fileKey e))
                            (filter isStoreFile (dirEntries fs)))) \<and>
           (\<forall>b. bucketToKeys st b =
              (let ks = map fileKey
                          (filter (\<lambda>e. isStoreFile e \<and> bucketOf E e = b) (dirEntries fs))
               in if ks = [] then None else Some (sort ks))) \<and>
           initLoop E (filter isStoreFile (dirEntries fs)) emptyStore = Inr st"
proof -
  let ?sf = "filter isStoreFile (dirEntries fs)"
  let ?L = "map (\<lambda>e. (fileKey e, storeEntryOf E e)) ?sf"
  from initLoop_index [OF assms(4), of emptyStore] obtain st where
    loop: "initLoop E (dirEntries fs) emptyStore = Inr st" and
    infos: "keyToInfo st = map_of (rev ?L)" and
    digests: "exactHashToKey st = map_of (rev (map (\<lambda>e. (digestOf E e, fileKey e)) ?sf))" and
    buckets: "\<And>b. bucketToKeys st b =
        (let ks = map fileKey (filter (\<lambda>e. isStoreFile e \<and> bucketOf E e = b) (dirEntries fs)) in
         if ks = [] then None else Some (sort ks))"
    by (auto simp: emptyStore_def)
  have keys: "map fst ?L = fileKeys (dirEntries fs)"
    by (simp add: fileKeys_def comp_def)
  have dist: "distinct (map fst (rev ?L))"
    using fileKeys_distinct [OF assms(3)] by (simp only: rev_map [symmetric] distinct_rev keys)
  have dom: "dom (keyToInfo st) = set (fileKeys (dirEntries fs))"
    unfolding infos by (simp only: dom_map_of_conv_image_fst set_rev set_map [symmetric] keys)
  have "card (set (fileKeys (dirEntries fs))) = length (fileKeys (dirEntries fs))"
    using fileKeys_distinct [OF assms(3)] by (simp add: distinct_card)
  then have card: "card (dom (keyToInfo st)) = length ?sf"
    using dom by (simp add: fileKeys_def)
  have entry: "keyToInfo st (fileKey e) = Some (storeEntryOf E e)"
    if "e \<in> set (dirEntries fs)" "isStoreFile e" for e
  proof -
    have "(fileKey e, storeEntryOf E e) \<in> set (rev ?L)" using that by auto
    then show ?thesis unfolding infos using dist by (rule map_of_is_SomeI [rotated])
  qed
  have "init E fs = Inr (st, fs)"
    using assms(1,2) loop by (simp add: init_def mkdir_def)
  then show ?thesis
    using card dom entry digests buckets loop by (auto simp only: initLoop_filter)
qed

section \<open>Garbage collection: the sweep\<close>

lemma isStoreKey_length: "isStoreKey k \<Longrightarrow> length k = keyLength"
  by (auto simp: isStoreKey_def keyLength_def SHARED_TEXTURE_PREFIX_def)

lemma matchHere_iff:
  "matchHere ns text = Some k \<longleftrightarrow>
     isStoreKey k \<and> (\<exists>post. text = refPrefix ns @ k @ ''.png'' @ post)"
proof
  assume m: "matchHere ns text = Some k"
  let ?p = "refPrefix ns"
  from m have a: "take (length ?p) text = ?p"
    and k: "k = take keyLength (drop (length ?p) text)" "isStoreKey k"
    and d: "take 4 (drop (length ?p + keyLength) text) = ''.png''"
    by (auto simp: matchHere_def Let_def split: if_splits)
  define r1 where "r1 = drop (length ?p) text"
  define r2 where "r2 = drop keyLength r1"
  have t1: "text = ?p @ r1"
    unfolding r1_def using a append_take_drop_id [of "length ?p" "text"] by simp
  have t2: "r1 = k @ r2"
    unfolding r2_def k(1) r1_def [symmetric] by simp
  have "r2 = drop (length ?p + keyLength) text"
    unfolding r2_def r1_def by (simp add: add.commute)
  then have "take 4 r2 = ''.png''" using d by simp
  then have t3: "r2 = ''.png'' @ drop 4 r2"
    using append_take_drop_id [of 4 r2] by simp
  have "text = ?p @ k @ ''.png'' @ drop 4 r2"
    using t1 t2 t3 by simp
  then show "isStoreKey k \<and> (\<exists>post. text = ?p @ k @ ''.png'' @ post)"
    using k(2) by blast
next
  assume "isStoreKey k \<and> (\<exists>post. text = refPrefix ns @ k @ ''.png'' @ post)"
  then obtain post where k: "isStoreKey k" and t: "text = refPrefix ns @ k @ ''.png'' @ post"
    by blast
  have l: "length k = keyLength" using k by (rule isStoreKey_length)
  show "matchHere ns text = Some k"
    by (simp add: matchHere_def Let_def t l k)
qed

lemma matchAll_sound:
  "k \<in> set (matchAll ns doc) \<Longrightarrow> referencedIn ns doc k"
proof (induction ns doc rule: matchAll.induct)
  case (1 ns doc)
  show ?case
  proof (cases "matchHere ns doc")
    case (Some k')
    then obtain post where k': "isStoreKey k'" and t: "doc = refPrefix ns @ k' @ ''.png'' @ post"
      using matchHere_iff by blast
    have dr: "drop (matchLength ns) doc = post"
      using t isStoreKey_length [OF k'] by (simp add: matchLength_def)
    from "1.prems" Some have "k = k' \<or> k \<in> set (matchAll ns post)"
      by (subst (asm) matchAll.simps) (simp add: dr)
    then show ?thesis
    proof
      assume "k = k'"
      then show ?thesis using k' t unfolding referencedIn_def by (metis append_Nil)
    next
      assume "k \<in> set (matchAll ns post)"
      then have "referencedIn ns post k" using "1.IH"(2) [OF Some] dr by simp
      then obtain pre q where "isStoreKey k" "post = pre @ refPrefix ns @ k @ ''.png'' @ q"
        unfolding referencedIn_def by blast
      then have "doc = (refPrefix ns @ k' @ ''.png'' @ pre) @ refPrefix ns @ k @ ''.png'' @ q"
        using t by simp
      then show ?thesis using \<open>isStoreKey k\<close> unfolding referencedIn_def by blast
    qed
  next
    case None
    show ?thesis
    proof (cases "doc")
      case Nil
      then show ?thesis using "1.prems" None by (subst (asm) matchAll.simps) simp
    next
      case (Cons c rest)
      then have "k \<in> set (matchAll ns rest)"
        using "1.prems" None by (subst (asm) matchAll.simps) simp
      then have "referencedIn ns rest k" using "1.IH"(1) [OF None Cons] by simp
      then obtain pre q where "isStoreKey k" "rest = pre @ refPrefix ns @ k @ ''.png'' @ q"
        unfolding referencedIn_def by blast
      then have "doc = (c # pre) @ refPrefix ns @ k @ ''.png'' @ q"
        using Cons by simp
      then show ?thesis using \<open>isStoreKey k\<close> unfolding referencedIn_def by blast
    qed
  qed
qed

lemma referencedAt_matchHere: "referencedAt ns doc i k \<longleftrightarrow> matchHere ns (drop i doc) = Some k"
  by (simp add: referencedAt_def matchHere_iff)

lemma referencedIn_at: "referencedIn ns doc k \<longleftrightarrow> (\<exists>i. referencedAt ns doc i k)"
proof
  assume "referencedIn ns doc k"
  then obtain pre post where k: "isStoreKey k"
    and "doc = pre @ refPrefix ns @ k @ ''.png'' @ post"
    unfolding referencedIn_def by blast
  then have "drop (length pre) doc = refPrefix ns @ k @ ''.png'' @ post" by simp
  then show "\<exists>i. referencedAt ns doc i k" using k unfolding referencedAt_def by blast
next
  assume "\<exists>i. referencedAt ns doc i k"
  then obtain i post where k: "isStoreKey k"
    and d: "drop i doc = refPrefix ns @ k @ ''.png'' @ post"
    unfolding referencedAt_def by blast
  have "doc = take i doc @ refPrefix ns @ k @ ''.png'' @ post"
    by (simp only: d [symmetric] append_take_drop_id)
  then show "referencedIn ns doc k" using k unfolding referencedIn_def by blast
qed

lemma referencedAt_drop:
  "referencedAt ns (drop n doc) i k \<longleftrightarrow> referencedAt ns doc (i + n) k"
  by (simp add: referencedAt_def)

lemma nonOverlapping_drop:
  assumes "nonOverlapping ns doc"
  shows "nonOverlapping ns (drop n doc)"
  unfolding nonOverlapping_def
proof (intro allI impI)
  fix i j k l
  assume "referencedAt ns (drop n doc) i k \<and> referencedAt ns (drop n doc) j l \<and> i < j"
  then have "referencedAt ns doc (i + n) k \<and> referencedAt ns doc (j + n) l \<and> i + n < j + n"
    by (simp add: referencedAt_drop)
  then have "i + n + matchLength ns \<le> j + n"
    using assms unfolding nonOverlapping_def by blast
  then show "i + matchLength ns \<le> j" by simp
qed

text \<open>In a document without overlap the scan finds every occurrence.\<close>

lemma matchAll_complete:
  "nonOverlapping ns doc \<Longrightarrow> referencedAt ns doc i k \<Longrightarrow> k \<in> set (matchAll ns doc)"
proof (induction ns doc arbitrary: i rule: matchAll.induct)
  case (1 ns doc)
  show ?case
  proof (cases "matchHere ns doc")
    case (Some k0)
    have at0: "referencedAt ns doc 0 k0" using Some by (simp add: referencedAt_matchHere)
    have unf: "matchAll ns doc = k0 # matchAll ns (drop (matchLength ns) doc)"
      using Some by (subst matchAll.simps) simp
    show ?thesis
    proof (cases "i = 0")
      case True
      then have "k = k0" using "1.prems"(2) Some by (simp add: referencedAt_matchHere)
      then show ?thesis using unf by simp
    next
      case False
      then have "0 < i" by simp
      then have le: "matchLength ns \<le> i"
        using "1.prems" at0 unfolding nonOverlapping_def by fastforce
      have "referencedAt ns (drop (matchLength ns) doc) (i - matchLength ns) k"
        using "1.prems"(2) le by (simp add: referencedAt_drop)
      then have "k \<in> set (matchAll ns (drop (matchLength ns) doc))"
        using "1.IH"(2) [OF Some nonOverlapping_drop [OF "1.prems"(1)]] by blast
      then show ?thesis using unf by simp
    qed
  next
    case None
    show ?thesis
    proof (cases doc)
      case Nil
      then have "matchHere ns (drop i doc) = None" using None by simp
      then show ?thesis using "1.prems"(2) by (simp add: referencedAt_matchHere)
    next
      case (Cons c rest)
      have "i \<noteq> 0"
        using "1.prems"(2) None by (cases "i = 0") (simp_all add: referencedAt_matchHere)
      then obtain i' where i: "i = Suc i'" by (cases i) auto
      have "referencedAt ns rest i' k"
        using "1.prems"(2) i Cons by (simp add: referencedAt_def)
      moreover have "nonOverlapping ns rest"
        using nonOverlapping_drop [OF "1.prems"(1), of 1] Cons by simp
      ultimately have "k \<in> set (matchAll ns rest)"
        using "1.IH"(1) [OF None Cons] by blast
      then show ?thesis using None Cons by (subst matchAll.simps) simp
    qed
  qed
qed

lemma isStoreKey_chars:
  assumes "isStoreKey k"
  shows "set k \<subseteq> set SHARED_TEXTURE_PREFIX \<union> {c. isHexLower c}"
proof -
  let ?n = "length SHARED_TEXTURE_PREFIX"
  have "set k = set (take ?n k) \<union> set (drop ?n k)"
    by (metis append_take_drop_id set_append)
  moreover have "take ?n k = SHARED_TEXTURE_PREFIX" "list_all isHexLower (drop ?n k)"
    using assms by (simp_all add: isStoreKey_def)
  ultimately show ?thesis by (auto simp: list_all_iff)
qed

lemma separating_nonOverlapping:
  assumes "separating ns"
  shows "nonOverlapping ns doc"
  unfolding nonOverlapping_def
proof (intro allI impI)
  fix i j k l
  assume "referencedAt ns doc i k \<and> referencedAt ns doc j l \<and> i < j"
  then obtain post post' where k: "isStoreKey k"
    and di: "drop i doc = refPrefix ns @ k @ ''.png'' @ post"
    and dj: "drop j doc = refPrefix ns @ l @ ''.png'' @ post'"
    and lt: "i < j"
    unfolding referencedAt_def by blast
  let ?M = "refPrefix ns @ k @ ''.png''"
  have lm: "length ?M = matchLength ns"
    using isStoreKey_length [OF k] by (simp add: matchLength_def)
  have p: "refPrefix ns \<noteq> []" by (simp add: refPrefix_def)
  show "i + matchLength ns \<le> j"
  proof (rule ccontr)
    assume "\<not> i + matchLength ns \<le> j"
    then have n: "j - i < length ?M" "0 < j - i" using lt lm by simp_all
    have dm: "drop i doc = ?M @ post" using di by simp
    have "drop j doc = drop (j - i) (drop i doc)" using lt by simp
    moreover have "j - i < length (drop i doc)" using n(1) unfolding dm by simp
    ultimately have "hd (drop j doc) = drop i doc ! (j - i)"
      by (simp only: hd_drop_conv_nth)
    also have "\<dots> = ?M ! (j - i)" unfolding dm using n(1) by (simp only: nth_append if_True)
    finally have "hd (refPrefix ns) = ?M ! (j - i)" using dj p by simp
    moreover obtain m where m: "j - i = Suc m" using n(2) by (cases "j - i") auto
    moreover have "m < length (tl ?M)" using n(1) m by simp
    then have "tl ?M ! m = ?M ! Suc m" "tl ?M ! m \<in> set (tl ?M)"
      by (rule nth_tl, rule nth_mem)
    ultimately have "hd (refPrefix ns) \<in> set (tl ?M)" by simp
    moreover have "set (tl ?M) \<subseteq> set (tl (refPrefix ns)) \<union> set k \<union> set ''.png''"
      using p by (cases "refPrefix ns") auto
    ultimately have "hd (refPrefix ns) \<in> set (tl (refPrefix ns)) \<union> set k \<union> set ''.png''"
      by blast
    then show False
      using assms isStoreKey_chars [OF k] unfolding separating_def by blast
  qed
qed

lemma usedKeys_referenced: "usedKeys ns files \<subseteq> referencedKeys ns files"
  unfolding usedKeys_def referencedKeys_def using matchAll_sound by fastforce

lemma usedKeys_complete:
  assumes "\<forall>(file, contents) \<in> set files. endsWith file ''.ui'' \<longrightarrow> nonOverlapping ns contents"
  shows "usedKeys ns files = referencedKeys ns files"
proof
  show "usedKeys ns files \<subseteq> referencedKeys ns files" by (rule usedKeys_referenced)
  show "referencedKeys ns files \<subseteq> usedKeys ns files"
  proof
    fix k assume "k \<in> referencedKeys ns files"
    then obtain path doc where f: "(path, doc) \<in> set files" "endsWith path ''.ui''"
      and r: "referencedIn ns doc k"
      unfolding referencedKeys_def by blast
    from r obtain i where "referencedAt ns doc i k" using referencedIn_at by blast
    moreover have "nonOverlapping ns doc" using assms f by blast
    ultimately have "k \<in> set (matchAll ns doc)" by (rule matchAll_complete [rotated])
    then show "k \<in> usedKeys ns files" using f unfolding usedKeys_def by force
  qed
qed

lemma unusedFile_fun: "unusedFile used = (\<lambda>e. isStoreFile e \<and> fileKey e \<notin> used)"
  by (rule ext) (simp add: unusedFile_def)

lemma pruneLoop_keep:
  "\<not> unusedFile used e \<Longrightarrow>
   pruneLoop writable used (e # es) =
     (case pruneLoop writable used es of
        Inl x \<Rightarrow> Inl x
      | Inr (kept, deleted) \<Rightarrow> Inr (e # kept, deleted))"
  by (cases e)
     (auto simp: unusedFile_def isStoreFile_def fileKey_def Let_def
       split: fnode.splits option.splits)

lemma pruneLoop_delete:
  "unusedFile used e \<Longrightarrow>
   pruneLoop writable used (e # es) =
     (if \<not> writable then Inl RmError
      else (case pruneLoop writable used es of
              Inl x \<Rightarrow> Inl x
            | Inr (kept, deleted) \<Rightarrow> Inr (kept, deleted + 1)))"
  by (cases e)
     (auto simp: unusedFile_def isStoreFile_def fileKey_def Let_def
       split: fnode.splits option.splits)

lemma pruneLoop_filter:
  "pruneLoop writable used es =
     (if \<not> writable \<and> (\<exists>e \<in> set es. unusedFile used e) then Inl RmError
      else Inr (filter (\<lambda>e. \<not> unusedFile used e) es, length (filter (unusedFile used) es)))"
proof (induction es)
  case Nil
  then show ?case by simp
next
  case (Cons e es)
  show ?case
  proof (cases "unusedFile used e")
    case True
    then show ?thesis using Cons by (cases writable) (simp_all add: pruneLoop_delete)
  next
    case False
    then show ?thesis using Cons by (cases writable) (simp_all add: pruneLoop_keep)
  qed
qed

text \<open>
  Claim C7, amended. \<open>P\<close> is the set of keys of the persisted bitmaps of the directory,
  and \<open>R\<close> the set of keys that the scan of the documents finds.

  \<^item> If the directory may be written, or no persisted bitmap has its key outside \<open>R\<close>,
    \<open>pruneUnusedSharedTextures\<close> removes exactly the persisted bitmaps whose key is not
    in \<open>R\<close> and leaves every other entry in place, in its order.
  \<^item> If the directory may not be written and some persisted bitmap has its key outside
    \<open>R\<close>, the call rejects and removes nothing.
  \<^item> Every key of \<open>R\<close> is referenced in a document; and \<open>R\<close> is the set of all
    referenced keys when no two reference paths of a document overlap, which is so in
    every document of a namespace such as \<open>HTML\<close>.
\<close>

theorem prune_deletes_exactly_unreferenced:
  assumes "dirExists fs" and "dirReadable fs"
  shows
    "(dirWritable fs \<or> (\<forall>e \<in> set (dirEntries fs). isStoreFile e \<longrightarrow> fileKey e \<in> usedKeys ns files) \<longrightarrow>
        (\<exists>fs' deleted.
           pruneUnusedSharedTextures ns files fs = Inr (fs', deleted) \<and>
           dirEntries fs' =
             filter (\<lambda>e. \<not> (isStoreFile e \<and> fileKey e \<notin> usedKeys ns files)) (dirEntries fs) \<and>
           set (dirEntries fs) - set (dirEntries fs') =
             {e \<in> set (dirEntries fs). isStoreFile e \<and> fileKey e \<notin> usedKeys ns files} \<and>
           deleted =
             length (filter (\<lambda>e. isStoreFile e \<and> fileKey e \<notin> usedKeys ns files) (dirEntries fs)))) \<and>
     (\<not> dirWritable fs \<and>
      (\<exists>e \<in> set (dirEntries fs). isStoreFile e \<and> fileKey e \<notin> usedKeys ns files) \<longrightarrow>
        pruneUnusedSharedTextures ns files fs = Inl RmError) \<and>
     usedKeys ns files \<subseteq> referencedKeys ns files \<and>
     ((\<forall>(file, contents) \<in> set files. endsWith file ''.ui'' \<longrightarrow> nonOverlapping ns contents) \<longrightarrow>
        usedKeys ns files = referencedKeys ns files) \<and>
     (separating ns \<longrightarrow> usedKeys ns files = referencedKeys ns files)"
proof (intro conjI impI)
  assume "dirWritable fs \<or>
    (\<forall>e \<in> set (dirEntries fs). isStoreFile e \<longrightarrow> fileKey e \<in> usedKeys ns files)"
  then have "\<not> (\<not> dirWritable fs \<and> (\<exists>e \<in> set (dirEntries fs). unusedFile (usedKeys ns files) e))"
    unfolding unusedFile_def by blast
  then show "\<exists>fs' deleted.
           pruneUnusedSharedTextures ns files fs = Inr (fs', deleted) \<and>
           dirEntries fs' =
             filter (\<lambda>e. \<not> (isStoreFile e \<and> fileKey e \<notin> usedKeys ns files)) (dirEntries fs) \<and>
           set (dirEntries fs) - set (dirEntries fs') =
             {e \<in> set (dirEntries fs). isStoreFile e \<and> fileKey e \<notin> usedKeys ns files} \<and>
           deleted =
             length (filter (\<lambda>e. isStoreFile e \<and> fileKey e \<notin> usedKeys ns files) (dirEntries fs))"
    using assms
    by (auto simp: pruneUnusedSharedTextures_def pruneLoop_filter unusedFile_fun)
next
  assume "\<not> dirWritable fs \<and>
    (\<exists>e \<in> set (dirEntries fs). isStoreFile e \<and> fileKey e \<notin> usedKeys ns files)"
  then show "pruneUnusedSharedTextures ns files fs = Inl RmError"
    using assms
    by (auto simp: pruneUnusedSharedTextures_def pruneLoop_filter unusedFile_fun)
next
  show "usedKeys ns files \<subseteq> referencedKeys ns files" by (rule usedKeys_referenced)
next
  assume "\<forall>(file, contents) \<in> set files. endsWith file ''.ui'' \<longrightarrow> nonOverlapping ns contents"
  then show "usedKeys ns files = referencedKeys ns files" by (rule usedKeys_complete)
next
  assume "separating ns"
  then have "\<forall>(file, contents) \<in> set files. endsWith file ''.ui'' \<longrightarrow> nonOverlapping ns contents"
    using separating_nonOverlapping by blast
  then show "usedKeys ns files = referencedKeys ns files" by (rule usedKeys_complete)
qed

section \<open>The candidate scan\<close>

lemma scan_Cons:
  "scanCandidates E st fs decoded allowed (k # ks) best =
     (case candidateMismatches E st fs decoded allowed k of
        Inl e \<Rightarrow> Inl e
      | Inr None \<Rightarrow> scanCandidates E st fs decoded allowed ks best
      | Inr (Some m) \<Rightarrow> scanCandidates E st fs decoded allowed ks (pickBest best k m))"
  by (cases best)
     (simp add: candidateMismatches_def pickBest_def Let_def split: option.splits)

lemma pickBest_wellFormed: "wellFormed best \<Longrightarrow> wellFormed (pickBest best k m)"
  by (auto simp: wellFormed_def pickBest_def)

lemma pickBest_atMost_new: "wellFormed best \<Longrightarrow> atMost (pickBest best k m) k m"
  by (auto simp: wellFormed_def pickBest_def atMost_def)

lemma pickBest_atMost_old:
  "wellFormed best \<Longrightarrow> atMost best k' m' \<Longrightarrow> atMost (pickBest best k m) k' m'"
  by (auto simp: wellFormed_def pickBest_def atMost_def)

lemma pickBest_cases: "pickBest best k m = best \<or> pickBest best k m = (Some k, enat m)"
  by (simp add: pickBest_def)

lemma scan_result:
  assumes "scanCandidates E st fs decoded allowed ks best = Inr res" and "wellFormed best"
  shows "wellFormed res \<and>
     (\<forall>k \<in> set ks. \<not> isl (candidateMismatches E st fs decoded allowed k)) \<and>
     (\<forall>k \<in> set ks. \<forall>m. candidateMismatches E st fs decoded allowed k = Inr (Some m) \<longrightarrow>
        atMost res k m) \<and>
     (\<forall>k' m'. atMost best k' m' \<longrightarrow> atMost res k' m') \<and>
     (res = best \<or>
      (\<exists>k \<in> set ks. \<exists>m. candidateMismatches E st fs decoded allowed k = Inr (Some m) \<and>
         res = (Some k, enat m)))"
  using assms
proof (induction ks arbitrary: best)
  case Nil
  then show ?case by simp
next
  case (Cons k ks)
  let ?c = "candidateMismatches E st fs decoded allowed k"
  show ?case
  proof (cases ?c)
    case (Inl e)
    then show ?thesis using Cons.prems(1) by (simp add: scan_Cons)
  next
    case (Inr r)
    show ?thesis
    proof (cases r)
      case None
      then have "scanCandidates E st fs decoded allowed ks best = Inr res"
        using Cons.prems(1) Inr by (simp add: scan_Cons)
      from Cons.IH [OF this Cons.prems(2)] show ?thesis
        using Inr None by auto
    next
      case (Some m)
      then have s: "scanCandidates E st fs decoded allowed ks (pickBest best k m) = Inr res"
        using Cons.prems(1) Inr by (simp add: scan_Cons)
      note ih = Cons.IH [OF s pickBest_wellFormed [OF Cons.prems(2)]]
      have new: "atMost res k m"
        using ih pickBest_atMost_new [OF Cons.prems(2)] by blast
      have old: "\<forall>k' m'. atMost best k' m' \<longrightarrow> atMost res k' m'"
        using ih pickBest_atMost_old [OF Cons.prems(2)] by blast
      have src: "res = best \<or>
        (\<exists>k' \<in> set (k # ks). \<exists>m'. candidateMismatches E st fs decoded allowed k' = Inr (Some m') \<and>
           res = (Some k', enat m'))"
        using ih pickBest_cases [of best k m] Inr Some by auto
      show ?thesis
        using ih new old src Inr Some by auto
    qed
  qed
qed

lemma scan_total:
  assumes "\<forall>k \<in> set ks. \<not> isl (candidateMismatches E st fs decoded allowed k)"
  shows "\<exists>res. scanCandidates E st fs decoded allowed ks best = Inr res"
  using assms
proof (induction ks arbitrary: best)
  case Nil
  then show ?case by simp
next
  case (Cons k ks)
  then show ?case
    by (cases "candidateMismatches E st fs decoded allowed k")
       (auto simp: scan_Cons split: option.splits)
qed

text \<open>The winner of a scan is determined by the set of candidates.\<close>

lemma scan_winner:
  assumes scan: "scanCandidates E st fs decoded allowed ks (None, \<infinity>) = Inr res"
    and k: "k \<in> set ks" "candidateMismatches E st fs decoded allowed k = Inr (Some m)"
    and least: "\<forall>k' \<in> set ks. \<forall>m'. candidateMismatches E st fs decoded allowed k' = Inr (Some m') \<longrightarrow>
        m < m' \<or> (m = m' \<and> k \<le> k')"
  shows "res = (Some k, enat m)"
proof -
  have wf: "wellFormed (None, \<infinity>)" by (simp add: wellFormed_def)
  note r = scan_result [OF scan wf]
  from r k have "atMost res k m" by blast
  then obtain b n where res: "res = (Some b, enat n)" and le: "n < m \<or> (n = m \<and> b \<le> k)"
    by (auto simp: atMost_def)
  from r res obtain k' m' where k': "k' \<in> set ks"
      "candidateMismatches E st fs decoded allowed k' = Inr (Some m')" "res = (Some k', enat m')"
    by auto
  with res have "b = k'" "n = m'" by simp_all
  with least k' have "m < n \<or> (m = n \<and> k \<le> b)" by blast
  with le have "n = m" "b = k" by auto
  then show ?thesis using res by simp
qed

lemma scan_none:
  assumes scan: "scanCandidates E st fs decoded allowed ks (None, \<infinity>) = Inr res"
    and none: "\<forall>k \<in> set ks. \<forall>m. candidateMismatches E st fs decoded allowed k \<noteq> Inr (Some m)"
  shows "res = (None, \<infinity>)"
proof -
  have wf: "wellFormed (None, \<infinity>)" by (simp add: wellFormed_def)
  from scan_result [OF scan wf] none show ?thesis by blast
qed


lemma candidateMismatches_buckets [simp]:
  "candidateMismatches E (st\<lparr>bucketToKeys := x\<rparr>) fs d allowed k =
   candidateMismatches E st fs d allowed k"
  by (simp add: candidateMismatches_def)

lemma candidateMismatches_info:
  "candidateMismatches E st fs d allowed k = Inr (Some m) \<Longrightarrow> \<exists>info. keyToInfo st k = Some info"
  by (auto simp: candidateMismatches_def split: option.splits)

subsection \<open>The three ways out of register\<close>

lemma register_exact:
  assumes "decodePng E buffer = Some d"
    and "exactHashToKey st (hashPngPixels E d) = Some k" and "k \<noteq> []"
    and "keyToInfo st k = Some info"
  shows "register E st fs buffer = Inr ((texturePath info, filePath info), st, fs)"
  using assms by (simp add: register_def Let_def)

lemma register_collapse:
  assumes "decodePng E buffer = Some d"
    and "exactHashToKey st (hashPngPixels E d) = None"
    and "scanCandidates E st fs d (allowedMismatches (width d) (height d))
           (case bucketToKeys st (bucketKey (width d) (height d) (computeFingerprint E d)) of
              None \<Rightarrow> [] | Some l \<Rightarrow> l) (None, \<infinity>) = Inr (Some b, m)"
    and "b \<noteq> []" and "keyToInfo st b = Some info"
  shows "register E st fs buffer =
           Inr ((texturePath info, filePath info),
                st\<lparr>exactHashToKey := (exactHashToKey st)(hashPngPixels E d \<mapsto> b)\<rparr>, fs)"
  using assms by (simp add: register_def Let_def)

lemma register_new:
  assumes "decodePng E buffer = Some d"
    and "exactHashToKey st (hashPngPixels E d) = None"
    and "scanCandidates E st fs d (allowedMismatches (width d) (height d))
           (case bucketToKeys st (bucketKey (width d) (height d) (computeFingerprint E d)) of
              None \<Rightarrow> [] | Some l \<Rightarrow> l) (None, \<infinity>) = Inr (None, m)"
  shows "register E st fs buffer =
           registerNew E st fs buffer d (hashPngPixels E d) (computeFingerprint E d)
             (bucketKey (width d) (height d) (computeFingerprint E d))"
  using assms by (simp add: register_def Let_def)

text \<open>Every successful call leaves through one of the three.\<close>

lemma register_cases:
  assumes "register E st fs buffer = Inr (r, st1, fs1)"
  obtains
    (exact) d k info where "decodePng E buffer = Some d"
      "exactHashToKey st (hashPngPixels E d) = Some k" "k \<noteq> []" "keyToInfo st k = Some info"
      "r = (texturePath info, filePath info)" "st1 = st" "fs1 = fs"
  | (collapse) d b info where "decodePng E buffer = Some d" "b \<noteq> []" "keyToInfo st b = Some info"
      "r = (texturePath info, filePath info)"
      "st1 = st\<lparr>exactHashToKey := (exactHashToKey st)(hashPngPixels E d \<mapsto> b)\<rparr>" "fs1 = fs"
  | (new) d where "decodePng E buffer = Some d"
      "registerNew E st fs buffer d (hashPngPixels E d) (computeFingerprint E d)
         (bucketKey (width d) (height d) (computeFingerprint E d)) = Inr (r, st1, fs1)"
proof -
  from assms obtain d where d: "decodePng E buffer = Some d"
    by (auto simp: register_def split: option.splits)
  let ?h = "hashPngPixels E d"
  let ?existing = "(case exactHashToKey st ?h of None \<Rightarrow> None
                 | Some existingKey \<Rightarrow> if existingKey \<noteq> [] then keyToInfo st existingKey else None)"
  show ?thesis
  proof (cases ?existing)
    case (Some info)
    then obtain k where "exactHashToKey st ?h = Some k" "k \<noteq> []" "keyToInfo st k = Some info"
      by (auto split: option.splits if_splits)
    moreover have "r = (texturePath info, filePath info)" "st1 = st" "fs1 = fs"
      using assms d Some by (simp_all add: register_def Let_def)
    ultimately show ?thesis using exact d by blast
  next
    case None
    let ?scan = "scanCandidates E st fs d (allowedMismatches (width d) (height d))
           (case bucketToKeys st (bucketKey (width d) (height d) (computeFingerprint E d)) of
              None \<Rightarrow> [] | Some l \<Rightarrow> l) (None, \<infinity>)"
    from assms d None obtain bestKey bm where scan: "?scan = Inr (bestKey, bm)"
      by (cases ?scan) (auto simp: register_def Let_def)
    let ?winner = "(case bestKey of None \<Rightarrow> None
         | Some b \<Rightarrow> if b \<noteq> [] then map_option (\<lambda>info. (b, info)) (keyToInfo st b) else None)"
    have reg: "register E st fs buffer =
        (case ?winner of
           Some (b, info) \<Rightarrow>
             Inr ((texturePath info, filePath info),
                  st\<lparr>exactHashToKey := (exactHashToKey st)(?h \<mapsto> b)\<rparr>, fs)
         | None \<Rightarrow> registerNew E st fs buffer d ?h (computeFingerprint E d)
             (bucketKey (width d) (height d) (computeFingerprint E d)))"
      using d None scan by (simp add: register_def Let_def)
    show ?thesis
    proof (cases ?winner)
      case None
      then show ?thesis using reg assms new d by simp
    next
      case (Some p)
      obtain b info where p: "p = (b, info)" by (cases p)
      from Some p have "b \<noteq> []" "keyToInfo st b = Some info"
        by (auto split: option.splits if_splits)
      moreover have "r = (texturePath info, filePath info)"
        "st1 = st\<lparr>exactHashToKey := (exactHashToKey st)(?h \<mapsto> b)\<rparr>" "fs1 = fs"
        using reg assms Some p by simp_all
      ultimately show ?thesis using collapse d by blast
    qed
  qed
qed

lemma registerNew_result:
  assumes "registerNew E st fs buffer d h fp bk = Inr (r, st1, fs1)"
  shows "r = (texturePathForKey E (SHARED_TEXTURE_PREFIX @ h),
              pathJoin (sharedDir E) (SHARED_TEXTURE_PREFIX @ h @ ''@2x.png''))"
    and "exactHashToKey st1 h = Some (SHARED_TEXTURE_PREFIX @ h)"
    and "\<exists>info. keyToInfo st1 (SHARED_TEXTURE_PREFIX @ h) = Some info \<and>
           texturePath info = fst r \<and> filePath info = snd r"
  using assms
  by (auto simp: registerNew_def addEntry_def Let_def split: sum.splits if_splits)

lemma register_twice:
  assumes d1: "decodePng E b1 = Some d" and d2: "decodePng E b2 = Some d"
    and r: "register E st fs b1 = Inr (r1, st1, fs1)"
  shows "register E st1 fs1 b2 = Inr (r1, st1, fs1)"
  using r
proof (cases rule: register_cases)
  case (exact d' k info)
  then show ?thesis using d1 d2 register_exact [of E b2 d st1 k info fs1] by simp
next
  case (collapse d' b info)
  then have "d' = d" using d1 by simp
  then show ?thesis
    using collapse register_exact [of E b2 d st1 b info fs1] d2 by simp
next
  case (new d')
  then have d': "d' = d" using d1 by simp
  from registerNew_result [OF new(2)] obtain info where
    "r1 = (texturePathForKey E (SHARED_TEXTURE_PREFIX @ hashPngPixels E d'),
              pathJoin (sharedDir E) (SHARED_TEXTURE_PREFIX @ hashPngPixels E d' @ ''@2x.png''))"
    "exactHashToKey st1 (hashPngPixels E d') = Some (SHARED_TEXTURE_PREFIX @ hashPngPixels E d')"
    "keyToInfo st1 (SHARED_TEXTURE_PREFIX @ hashPngPixels E d') = Some info"
    "texturePath info = fst r1" "filePath info = snd r1"
    by blast
  then show ?thesis
    using register_exact [of E b2 d st1 "SHARED_TEXTURE_PREFIX @ hashPngPixels E d" info fs1] d2 d'
    by (simp add: SHARED_TEXTURE_PREFIX_def)
qed


subsection \<open>Files created by a registration\<close>

lemma entryName_pathJoin: "entryName E (pathJoin (sharedDir E) n) = Some n"
  by (simp add: entryName_def pathJoin_def Let_def)

lemma upsert_absent: "map_of es n = None \<Longrightarrow> upsert n v es = es @ [(n, v)]"
  by (induction es) (auto split: if_splits)

lemma registerNew_files:
  assumes "registerNew E st fs buffer d h fp bk = Inr (r, st1, fs1)"
  shows "(map_of (dirEntries fs) (SHARED_TEXTURE_PREFIX @ h @ ''@2x.png'') \<noteq> None \<and> fs1 = fs) \<or>
         (map_of (dirEntries fs) (SHARED_TEXTURE_PREFIX @ h @ ''@2x.png'') = None \<and> dirWritable fs \<and>
          fs1 = fs\<lparr>dirExists := True,
                    dirEntries := dirEntries fs @ [(SHARED_TEXTURE_PREFIX @ h @ ''@2x.png'', RegularFile buffer)]\<rparr>)"
  using assms
  by (auto simp: registerNew_def Let_def exists_def writeFileSafe_def entryName_pathJoin
      upsert_absent split: sum.splits if_splits)

lemma register_files:
  assumes "register E st fs buffer = Inr (r, st1, fs1)"
  shows "dirEntries fs1 = dirEntries fs \<or>
         (\<exists>n. map_of (dirEntries fs) n = None \<and>
              dirEntries fs1 = dirEntries fs @ [(n, RegularFile buffer)])"
  using assms
proof (cases rule: register_cases)
  case (new d)
  from registerNew_files [OF new(2)] show ?thesis by auto
qed simp_all

lemma register_empty:
  assumes "decodePng E buffer = Some d" and "dirEntries fs = []" and "dirWritable fs"
  shows "register E emptyStore fs buffer =
     Inr ((texturePathForKey E (SHARED_TEXTURE_PREFIX @ hashPngPixels E d),
           pathJoin (sharedDir E) (SHARED_TEXTURE_PREFIX @ hashPngPixels E d @ ''@2x.png'')),
          addEntry emptyStore (hashPngPixels E d)
            (bucketKey (width d) (height d) (computeFingerprint E d))
            \<lparr>key = SHARED_TEXTURE_PREFIX @ hashPngPixels E d, width = width d, height = height d,
              fingerprint = computeFingerprint E d,
              filePath = pathJoin (sharedDir E) (SHARED_TEXTURE_PREFIX @ hashPngPixels E d @ ''@2x.png''),
              texturePath = texturePathForKey E (SHARED_TEXTURE_PREFIX @ hashPngPixels E d)\<rparr>,
          fs\<lparr>dirExists := True,
               dirEntries := [(SHARED_TEXTURE_PREFIX @ hashPngPixels E d @ ''@2x.png'', RegularFile buffer)]\<rparr>)"
proof -
  have "register E emptyStore fs buffer =
      registerNew E emptyStore fs buffer d (hashPngPixels E d) (computeFingerprint E d)
        (bucketKey (width d) (height d) (computeFingerprint E d))"
    by (rule register_new [OF assms(1)]) (simp_all add: emptyStore_def)
  then show ?thesis
    using assms(2,3)
    by (simp add: registerNew_def Let_def exists_def writeFileSafe_def entryName_pathJoin)
qed

text \<open>Without an exact match \<open>register\<close> goes on to the scan of the bucket.\<close>

lemma register_miss:
  assumes "decodePng E buffer = Some d" and "\<not> exactMatch E st d"
  shows "register E st fs buffer =
     (case scanCandidates E st fs d (allowedMismatches (width d) (height d))
             (case bucketToKeys st (bucketKey (width d) (height d) (computeFingerprint E d)) of
                None \<Rightarrow> [] | Some l \<Rightarrow> l) (None, \<infinity>) of
        Inl e \<Rightarrow> Inl e
      | Inr (bestKey, bestMismatches) \<Rightarrow>
          (case (case bestKey of
                   None \<Rightarrow> None
                 | Some b \<Rightarrow> if b \<noteq> [] then map_option (\<lambda>info. (b, info)) (keyToInfo st b)
                             else None) of
             Some (b, info) \<Rightarrow>
               Inr ((texturePath info, filePath info),
                    st\<lparr>exactHashToKey := (exactHashToKey st)(hashPngPixels E d \<mapsto> b)\<rparr>, fs)
           | None \<Rightarrow>
               registerNew E st fs buffer d (hashPngPixels E d) (computeFingerprint E d)
                 (bucketKey (width d) (height d) (computeFingerprint E d))))"
proof -
  have "(case exactHashToKey st (hashPngPixels E d) of
           None \<Rightarrow> None
         | Some existingKey \<Rightarrow> if existingKey \<noteq> [] then keyToInfo st existingKey else None) = None"
    using assms(2) by (auto simp: exactMatch_def split: option.splits)
  then show ?thesis using assms(1) by (simp add: register_def Let_def)
qed

lemma register_unmatched:
  assumes dec: "decodePng E buffer = Some d"
    and reg: "register E st fs buffer = Inr (r, stA, fsA)"
    and none: "\<not> exactMatch E st d" "\<not> nearMatch E st fs d"
  shows "registerNew E st fs buffer d (hashPngPixels E d) (computeFingerprint E d)
           (bucketKey (width d) (height d) (computeFingerprint E d)) = Inr (r, stA, fsA)"
proof -
  let ?ks = "case bucketToKeys st (bucketKey (width d) (height d) (computeFingerprint E d)) of
                None \<Rightarrow> [] | Some l \<Rightarrow> l"
  let ?scan = "scanCandidates E st fs d (allowedMismatches (width d) (height d)) ?ks (None, \<infinity>)"
  note m = register_miss [OF dec none(1), of fs]
  from reg m obtain res where scan: "?scan = Inr res"
    by (cases ?scan) simp_all
  have "\<forall>k \<in> set ?ks. \<forall>m. candidateMismatches E st fs d (allowedMismatches (width d) (height d)) k
          \<noteq> Inr (Some m)"
    using none(2) unfolding nearMatch_def by blast
  then have "res = (None, \<infinity>)" by (rule scan_none [OF scan])
  then show ?thesis using reg m scan by simp
qed

lemma register_matched:
  assumes dec: "decodePng E buffer = Some d"
    and reg: "register E st fs buffer = Inr (r, stA, fsA)"
    and near: "nearMatch E st fs d" and nonempty: "keyToInfo st [] = None"
  shows "fsA = fs"
proof (cases "exactMatch E st d")
  case True
  then show ?thesis using reg dec by (auto simp: exactMatch_def register_def Let_def)
next
  case False
  let ?a = "allowedMismatches (width d) (height d)"
  let ?ks = "case bucketToKeys st (bucketKey (width d) (height d) (computeFingerprint E d)) of
                None \<Rightarrow> [] | Some l \<Rightarrow> l"
  let ?scan = "scanCandidates E st fs d ?a ?ks (None, \<infinity>)"
  note m = register_miss [OF dec False, of fs]
  from reg m obtain res where scan: "?scan = Inr res"
    by (cases ?scan) simp_all
  have wf: "wellFormed (None, \<infinity>)" by (simp add: wellFormed_def)
  note sr = scan_result [OF scan wf]
  from near obtain k0 m0 where "k0 \<in> set ?ks" "candidateMismatches E st fs d ?a k0 = Inr (Some m0)"
    unfolding nearMatch_def by blast
  with sr have "atMost res k0 m0" by blast
  then have "res \<noteq> (None, \<infinity>)" by (auto simp: atMost_def)
  with sr obtain b n where b: "b \<in> set ?ks" "candidateMismatches E st fs d ?a b = Inr (Some n)"
    and res: "res = (Some b, enat n)"
    by blast
  from candidateMismatches_info [OF b(2)] obtain info where info: "keyToInfo st b = Some info"
    by blast
  then have "b \<noteq> []" using nonempty by auto
  then show ?thesis using reg m scan res info by simp
qed

text \<open>
  \<open>register\<close> succeeds when it finds an exact match, and otherwise when no candidate of
  the bucket fails to load and the call has nothing to write or may write.
\<close>

lemma register_total:
  assumes dec: "decodePng E buffer = Some d"
    and ok: "exactMatch E st d \<or>
      ((\<forall>k \<in> set (case bucketToKeys st (bucketKey (width d) (height d) (computeFingerprint E d)) of
                    None \<Rightarrow> [] | Some l \<Rightarrow> l).
          \<not> isl (candidateMismatches E st fs d (allowedMismatches (width d) (height d)) k)) \<and>
       (dirWritable fs \<or> map_of (dirEntries fs) (ownFileName E d) \<noteq> None \<or>
        (nearMatch E st fs d \<and> keyToInfo st [] = None)))"
  shows "\<exists>r stA fsA. register E st fs buffer = Inr (r, stA, fsA)"
proof (cases "exactMatch E st d")
  case True
  then show ?thesis using dec register_exact unfolding exactMatch_def by blast
next
  case False
  let ?a = "allowedMismatches (width d) (height d)"
  let ?ks = "case bucketToKeys st (bucketKey (width d) (height d) (computeFingerprint E d)) of
                None \<Rightarrow> [] | Some l \<Rightarrow> l"
  from ok False have noerr: "\<forall>k \<in> set ?ks. \<not> isl (candidateMismatches E st fs d ?a k)"
    and way: "dirWritable fs \<or> map_of (dirEntries fs) (ownFileName E d) \<noteq> None \<or>
        (nearMatch E st fs d \<and> keyToInfo st [] = None)"
    by blast+
  from scan_total [OF noerr] obtain bestKey bm where
    scan: "scanCandidates E st fs d ?a ?ks (None, \<infinity>) = Inr (bestKey, bm)"
    by fastforce
  note m = register_miss [OF dec False, of fs]
  let ?winner = "(case bestKey of None \<Rightarrow> None
         | Some b \<Rightarrow> if b \<noteq> [] then map_option (\<lambda>info. (b, info)) (keyToInfo st b) else None)"
  show ?thesis
  proof (cases ?winner)
    case (Some p)
    then show ?thesis using m scan by (cases p) simp
  next
    case None
    then have new: "register E st fs buffer =
        registerNew E st fs buffer d (hashPngPixels E d) (computeFingerprint E d)
          (bucketKey (width d) (height d) (computeFingerprint E d))"
      using m scan by simp
    have "\<not> (nearMatch E st fs d \<and> keyToInfo st [] = None)"
    proof
      assume near: "nearMatch E st fs d \<and> keyToInfo st [] = None"
      have wf: "wellFormed (None, \<infinity>)" by (simp add: wellFormed_def)
      note sr = scan_result [OF scan wf]
      from near obtain k0 m0 where "k0 \<in> set ?ks"
        "candidateMismatches E st fs d ?a k0 = Inr (Some m0)"
        unfolding nearMatch_def by blast
      with sr have "atMost (bestKey, bm) k0 m0" by blast
      then have "(bestKey, bm) \<noteq> (None, \<infinity>)" by (auto simp: atMost_def)
      with sr obtain b n where "candidateMismatches E st fs d ?a b = Inr (Some n)"
        and res: "(bestKey, bm) = (Some b, enat n)"
        by blast
      from candidateMismatches_info [OF this(1)] obtain info where "keyToInfo st b = Some info"
        by blast
      then show False using None res near by (cases "b = []") auto
    qed
    with way have "dirWritable fs \<or> map_of (dirEntries fs) (ownFileName E d) \<noteq> None" by blast
    then show ?thesis
      unfolding new
      by (auto simp: registerNew_def Let_def exists_def writeFileSafe_def entryName_pathJoin
          ownFileName_def)
  qed
qed

text \<open>
  Claim C2, amended. Two buffers that decode to the same pixels get the same reference,
  and the second call changes neither the index nor the directory. The pair creates at
  most one file, the one of the first call:

  \<^item> exactly one, with the bytes of the first buffer under the name of the digest, when
    the first call finds neither an exact match nor a near-duplicate match nor a file
    of that name (in particular on an empty store over an empty directory);
  \<^item> none when the first call finds an exact match, a near-duplicate match (in a store
    that has no entry under the empty key), or a file of that name.

  The first call succeeds when it finds an exact match, and otherwise when no candidate
  of the bucket fails to load and the call has nothing to write or may write.
\<close>

theorem exact_dedup:
  assumes "decodePng E bufA = Some d" and "decodePng E bufB = Some d"
  shows
    "(register E st fs bufA = Inr (ref, stA, fsA) \<longrightarrow>
        register E stA fsA bufB = Inr (ref, stA, fsA) \<and>
        (dirEntries fsA = dirEntries fs \<or>
         (\<exists>n. map_of (dirEntries fs) n = None \<and>
              dirEntries fsA = dirEntries fs @ [(n, RegularFile bufA)])) \<and>
        (st = emptyStore \<and> dirEntries fs = [] \<longrightarrow> length (dirEntries fsA) = 1) \<and>
        (\<not> exactMatch E st d \<and> \<not> nearMatch E st fs d \<and>
         map_of (dirEntries fs) (ownFileName E d) = None \<longrightarrow>
           dirWritable fs \<and>
           dirEntries fsA = dirEntries fs @ [(ownFileName E d, RegularFile bufA)]) \<and>
        (exactMatch E st d \<or> (nearMatch E st fs d \<and> keyToInfo st [] = None) \<or>
         map_of (dirEntries fs) (ownFileName E d) \<noteq> None \<longrightarrow>
           fsA = fs)) \<and>
     (exactMatch E st d \<or>
      ((\<forall>k \<in> set (case bucketToKeys st (bucketKey (width d) (height d) (computeFingerprint E d)) of
                    None \<Rightarrow> [] | Some l \<Rightarrow> l).
          \<not> isl (candidateMismatches E st fs d (allowedMismatches (width d) (height d)) k)) \<and>
       (dirWritable fs \<or> map_of (dirEntries fs) (ownFileName E d) \<noteq> None \<or>
        (nearMatch E st fs d \<and> keyToInfo st [] = None))) \<longrightarrow>
        (\<exists>r stN fsN. register E st fs bufA = Inr (r, stN, fsN) \<and>
           register E stN fsN bufB = Inr (r, stN, fsN)))"
proof (intro conjI impI)
  assume reg: "register E st fs bufA = Inr (ref, stA, fsA)"
  show "register E stA fsA bufB = Inr (ref, stA, fsA)"
    by (rule register_twice [OF assms reg])
  show "dirEntries fsA = dirEntries fs \<or>
          (\<exists>n. map_of (dirEntries fs) n = None \<and>
               dirEntries fsA = dirEntries fs @ [(n, RegularFile bufA)])"
    by (rule register_files [OF reg])
next
  assume reg: "register E st fs bufA = Inr (ref, stA, fsA)"
  assume e: "st = emptyStore \<and> dirEntries fs = []"
  show "length (dirEntries fsA) = 1"
    using reg unfolding conjunct1 [OF e]
  proof (cases rule: register_cases)
    case (new d')
    from registerNew_files [OF new(2)] e show ?thesis by auto
  qed (simp_all add: emptyStore_def)
next
  assume reg: "register E st fs bufA = Inr (ref, stA, fsA)"
  assume h: "\<not> exactMatch E st d \<and> \<not> nearMatch E st fs d \<and>
          map_of (dirEntries fs) (ownFileName E d) = None"
  then have "registerNew E st fs bufA d (hashPngPixels E d) (computeFingerprint E d)
           (bucketKey (width d) (height d) (computeFingerprint E d)) = Inr (ref, stA, fsA)"
    using register_unmatched [OF assms(1) reg] by blast
  from registerNew_files [OF this] h
  have both: "dirWritable fs \<and>
      dirEntries fsA = dirEntries fs @ [(ownFileName E d, RegularFile bufA)]"
    by (auto simp: ownFileName_def)
  from both show "dirWritable fs" by simp
  from both show "dirEntries fsA = dirEntries fs @ [(ownFileName E d, RegularFile bufA)]" by simp
next
  assume reg: "register E st fs bufA = Inr (ref, stA, fsA)"
  assume h: "exactMatch E st d \<or> (nearMatch E st fs d \<and> keyToInfo st [] = None) \<or>
          map_of (dirEntries fs) (ownFileName E d) \<noteq> None"
  show "fsA = fs"
  proof (cases "exactMatch E st d")
    case True
    then show ?thesis using assms(1) reg by (auto simp: exactMatch_def register_def Let_def)
  next
    case False
    show ?thesis
    proof (cases "nearMatch E st fs d \<and> keyToInfo st [] = None")
      case True
      then show ?thesis using register_matched [OF assms(1) reg] by blast
    next
      case no: False
      then have taken: "map_of (dirEntries fs) (ownFileName E d) \<noteq> None" using h False by blast
      from reg show ?thesis
      proof (cases rule: register_cases)
        case (new d')
        then have "d' = d" using assms(1) by simp
        with registerNew_files [OF new(2)] taken show ?thesis by (auto simp: ownFileName_def)
      qed simp_all
    qed
  qed
next
  assume "exactMatch E st d \<or>
      ((\<forall>k \<in> set (case bucketToKeys st (bucketKey (width d) (height d) (computeFingerprint E d)) of
                    None \<Rightarrow> [] | Some l \<Rightarrow> l).
          \<not> isl (candidateMismatches E st fs d (allowedMismatches (width d) (height d)) k)) \<and>
       (dirWritable fs \<or> map_of (dirEntries fs) (ownFileName E d) \<noteq> None \<or>
        (nearMatch E st fs d \<and> keyToInfo st [] = None)))"
  from register_total [OF assms(1) this] obtain r stN fsN where
    "register E st fs bufA = Inr (r, stN, fsN)" by blast
  then show "\<exists>r stN fsN. register E st fs bufA = Inr (r, stN, fsN) \<and>
           register E stN fsN bufB = Inr (r, stN, fsN)"
    using register_twice [OF assms] by blast
qed


subsection \<open>The tie-break\<close>

lemma tie_break_core:
  assumes dec: "decodePng E buffer = Some d"
    and miss: "exactHashToKey st (hashPngPixels E d) = None"
    and bucket: "bucketToKeys st (bucketKey (width d) (height d) (computeFingerprint E d)) = Some ks"
    and noerr: "\<forall>k' \<in> set ks.
        \<not> isl (candidateMismatches E st fs d (allowedMismatches (width d) (height d)) k')"
    and k: "k \<in> set ks" "k \<noteq> []"
      "candidateMismatches E st fs d (allowedMismatches (width d) (height d)) k = Inr (Some m)"
    and least: "\<forall>k' \<in> set ks. \<forall>m'.
        candidateMismatches E st fs d (allowedMismatches (width d) (height d)) k' = Inr (Some m') \<longrightarrow>
        m \<le> m' \<and> (m' = m \<longrightarrow> k \<le> k')"
    and perm: "mset ks' = mset ks"
  shows "\<exists>info. keyToInfo st k = Some info \<and>
     register E st fs buffer =
       Inr ((texturePath info, filePath info),
            st\<lparr>exactHashToKey := (exactHashToKey st)(hashPngPixels E d \<mapsto> k)\<rparr>, fs) \<and>
     register E
        (st\<lparr>bucketToKeys :=
              (bucketToKeys st)(bucketKey (width d) (height d) (computeFingerprint E d) \<mapsto> ks')\<rparr>)
        fs buffer =
       Inr ((texturePath info, filePath info),
            st\<lparr>bucketToKeys :=
                 (bucketToKeys st)(bucketKey (width d) (height d) (computeFingerprint E d) \<mapsto> ks'),
               exactHashToKey := (exactHashToKey st)(hashPngPixels E d \<mapsto> k)\<rparr>, fs)"
proof -
  let ?a = "allowedMismatches (width d) (height d)"
  let ?bk = "bucketKey (width d) (height d) (computeFingerprint E d)"
  let ?st' = "st\<lparr>bucketToKeys := (bucketToKeys st)(?bk \<mapsto> ks')\<rparr>"
  from candidateMismatches_info [OF k(3)] obtain info where info: "keyToInfo st k = Some info"
    by blast
  have least': "\<forall>k' \<in> set ks. \<forall>m'.
        candidateMismatches E st fs d ?a k' = Inr (Some m') \<longrightarrow> m < m' \<or> (m = m' \<and> k \<le> k')"
    using least by (metis le_neq_implies_less)
  have set_eq: "set ks' = set ks" using perm by (rule mset_eq_setD)
  \<comment> \<open>the scan over the bucket as it is\<close>
  from scan_total [OF noerr] obtain res where
    res: "scanCandidates E st fs d ?a ks (None, \<infinity>) = Inr res" by blast
  have "res = (Some k, enat m)" by (rule scan_winner [OF res k(1,3) least'])
  then have one: "register E st fs buffer =
       Inr ((texturePath info, filePath info),
            st\<lparr>exactHashToKey := (exactHashToKey st)(hashPngPixels E d \<mapsto> k)\<rparr>, fs)"
    using register_collapse [OF dec miss, of fs k "enat m" info] res bucket k(2) info by simp
  \<comment> \<open>the scan over the same candidates in another order\<close>
  have noerr': "\<forall>k' \<in> set ks'. \<not> isl (candidateMismatches E ?st' fs d ?a k')"
    using noerr set_eq by simp
  from scan_total [OF noerr'] obtain res' where
    res': "scanCandidates E ?st' fs d ?a ks' (None, \<infinity>) = Inr res'" by blast
  have "res' = (Some k, enat m)"
    by (rule scan_winner [OF res']) (use k least' set_eq in simp_all)
  then have two: "register E ?st' fs buffer =
       Inr ((texturePath info, filePath info),
            ?st'\<lparr>exactHashToKey := (exactHashToKey ?st')(hashPngPixels E d \<mapsto> k)\<rparr>, fs)"
    using register_collapse [OF dec, of ?st' fs k "enat m" info] res' miss k(2) info by simp
  show ?thesis using info one two by simp
qed

text \<open>
  Claim C3. The exact lookup misses and the bucket of the new bitmap holds the
  candidates \<open>ks\<close>, none of which fails to load. If \<open>k\<close> is the smallest key among the
  candidates with the fewest mismatches within the budget, \<open>register\<close> collapses onto
  \<open>k\<close>; and it does so for every order \<open>ks'\<close> of the same candidates in the bucket.
\<close>

theorem tie_break_smallest_key:
  assumes dec: "decodePng E buffer = Some d"
    and miss: "exactHashToKey st (hashPngPixels E d) = None"
    and bucket: "bucketToKeys st (bucketKey (width d) (height d) (computeFingerprint E d)) = Some ks"
    and noerr: "\<forall>k' \<in> set ks.
        \<not> isl (candidateMismatches E st fs d (allowedMismatches (width d) (height d)) k')"
    and k: "k \<in> set ks" "k \<noteq> []"
      "candidateMismatches E st fs d (allowedMismatches (width d) (height d)) k = Inr (Some m)"
    and least: "\<forall>k' \<in> set ks. \<forall>m'.
        candidateMismatches E st fs d (allowedMismatches (width d) (height d)) k' = Inr (Some m') \<longrightarrow>
        m \<le> m' \<and> (m' = m \<longrightarrow> k \<le> k')"
    and perm: "mset ks' = mset ks"
  shows "\<exists>info. keyToInfo st k = Some info \<and>
     register E st fs buffer =
       Inr ((texturePath info, filePath info),
            st\<lparr>exactHashToKey := (exactHashToKey st)(hashPngPixels E d \<mapsto> k)\<rparr>, fs) \<and>
     register E
        (st\<lparr>bucketToKeys :=
              (bucketToKeys st)(bucketKey (width d) (height d) (computeFingerprint E d) \<mapsto> ks')\<rparr>)
        fs buffer =
       Inr ((texturePath info, filePath info),
            st\<lparr>bucketToKeys :=
                 (bucketToKeys st)(bucketKey (width d) (height d) (computeFingerprint E d) \<mapsto> ks'),
               exactHashToKey := (exactHashToKey st)(hashPngPixels E d \<mapsto> k)\<rparr>, fs)"
  using assms by (rule tie_break_core)

subsection \<open>Counting mismatched pixels\<close>

lemma countLoop_eq:
  "mismatches \<le> allowed \<Longrightarrow>
   countLoop a b allowed i mismatches =
     min (mismatches + length (filter (pixelMismatch a b) (pixelOffsets i (length a)))) (allowed + 1)"
proof (induction a b allowed i mismatches rule: countLoop.induct)
  case (1 a b allowed i mismatches)
  show ?case
  proof (cases "i < length a")
    case False
    then show ?thesis
      using "1.prems" by (subst countLoop.simps, subst pixelOffsets.simps) simp
  next
    case True
    show ?thesis
    proof (cases "pixelMismatch a b i")
      case False
      then show ?thesis
        using "1.IH"(2) [OF True False "1.prems"] True
        by (subst countLoop.simps, subst pixelOffsets.simps) simp
    next
      case pm: True
      show ?thesis
      proof (cases "mismatches + 1 > allowed")
        case True
        then show ?thesis
          using \<open>i < length a\<close> pm "1.prems"
          by (subst countLoop.simps, subst pixelOffsets.simps) simp
      next
        case False
        then have le: "mismatches + 1 \<le> allowed" by simp
        show ?thesis
          using "1.IH"(1) [OF \<open>i < length a\<close> pm False le] \<open>i < length a\<close> pm False
          by (subst countLoop.simps, subst pixelOffsets.simps) simp
      qed
    qed
  qed
qed

lemma countMismatchedPixels_eq:
  "length a = length b \<Longrightarrow>
   countMismatchedPixels a b allowed = min (mismatchedPixels a b) (allowed + 1)"
  by (simp add: countMismatchedPixels_def mismatchedPixels_def countLoop_eq)


subsection \<open>Near-duplicate collapse\<close>

lemma candidateMismatches_base:
  assumes "keyToInfo st kb = Some info"
    and "SharedTextureInfo.width info = width cp" "SharedTextureInfo.height info = height cp"
    and "fsReadFile E fs (filePath info) = Some baseBuffer" "decodePng E baseBuffer = Some base"
    and "width base = width cp" "height base = height cp"
    and "length (data base) = length (data cp)"
  shows "candidateMismatches E st fs cp allowed kb =
     (if mismatchedPixels (data cp) (data base) \<le> allowed
      then Inr (Some (mismatchedPixels (data cp) (data base))) else Inr None)"
  using assms by (auto simp: candidateMismatches_def Let_def countMismatchedPixels_eq)

lemma near_duplicate_core:
  assumes dec: "decodePng E buffer = Some cp"
    and miss: "exactHashToKey st (hashPngPixels E cp) = None"
    and bucket: "bucketToKeys st (bucketKey (width cp) (height cp) (computeFingerprint E cp)) = Some ks"
    and kb: "kb \<in> set ks" "kb \<noteq> []"
    and base: "keyToInfo st kb = Some info"
      "SharedTextureInfo.width info = width cp" "SharedTextureInfo.height info = height cp"
      "fsReadFile E fs (filePath info) = Some baseBuffer" "decodePng E baseBuffer = Some base"
      "width base = width cp" "height base = height cp"
      "length (data base) = length (data cp)"
    and others: "\<forall>k' \<in> set ks. k' \<noteq> kb \<longrightarrow>
        candidateMismatches E st fs cp (allowedMismatches (width cp) (height cp)) k' = Inr None"
  shows
    "(mismatchedPixels (data cp) (data base) \<le> allowedMismatches (width cp) (height cp) \<longrightarrow>
        register E st fs buffer =
          Inr ((texturePath info, filePath info),
               st\<lparr>exactHashToKey := (exactHashToKey st)(hashPngPixels E cp \<mapsto> kb)\<rparr>, fs)) \<and>
     (allowedMismatches (width cp) (height cp) < mismatchedPixels (data cp) (data base) \<and>
      map_of (dirEntries fs) (SHARED_TEXTURE_PREFIX @ hashPngPixels E cp @ ''@2x.png'') = None \<and>
      dirWritable fs \<longrightarrow>
        register E st fs buffer =
          Inr ((texturePathForKey E (SHARED_TEXTURE_PREFIX @ hashPngPixels E cp),
                pathJoin (sharedDir E) (SHARED_TEXTURE_PREFIX @ hashPngPixels E cp @ ''@2x.png'')),
               addEntry st (hashPngPixels E cp)
                 (bucketKey (width cp) (height cp) (computeFingerprint E cp))
                 \<lparr>key = SHARED_TEXTURE_PREFIX @ hashPngPixels E cp,
                   width = width cp, height = height cp,
                   fingerprint = computeFingerprint E cp,
                   filePath = pathJoin (sharedDir E)
                     (SHARED_TEXTURE_PREFIX @ hashPngPixels E cp @ ''@2x.png''),
                   texturePath = texturePathForKey E (SHARED_TEXTURE_PREFIX @ hashPngPixels E cp)\<rparr>,
               fs\<lparr>dirExists := True,
                    dirEntries := dirEntries fs @
                      [(SHARED_TEXTURE_PREFIX @ hashPngPixels E cp @ ''@2x.png'',
                        RegularFile buffer)]\<rparr>))"
proof -
  let ?a = "allowedMismatches (width cp) (height cp)"
  let ?k = "mismatchedPixels (data cp) (data base)"
  note cb = candidateMismatches_base [OF base, of ?a]
  have noerr: "\<forall>k' \<in> set ks. \<not> isl (candidateMismatches E st fs cp ?a k')"
    using others cb by (metis sum.disc(2))
  from scan_total [OF noerr] obtain res where
    res: "scanCandidates E st fs cp ?a ks (None, \<infinity>) = Inr res" by blast
  have within: "register E st fs buffer =
          Inr ((texturePath info, filePath info),
               st\<lparr>exactHashToKey := (exactHashToKey st)(hashPngPixels E cp \<mapsto> kb)\<rparr>, fs)"
    if le: "?k \<le> ?a"
  proof -
    have c: "candidateMismatches E st fs cp ?a kb = Inr (Some ?k)" using cb le by simp
    have "res = (Some kb, enat ?k)"
    proof (rule scan_winner [OF res kb(1) c], intro ballI allI impI)
      fix k' m'
      assume "k' \<in> set ks" "candidateMismatches E st fs cp ?a k' = Inr (Some m')"
      then have "k' = kb" using others by force
      then show "?k < m' \<or> (?k = m' \<and> kb \<le> k')"
        using c \<open>candidateMismatches E st fs cp ?a k' = Inr (Some m')\<close> by simp
    qed
    then show ?thesis
      using register_collapse [OF dec miss, of fs kb "enat ?k" info] res bucket kb(2) base(1)
      by simp
  qed
  have beyond: "register E st fs buffer =
      registerNew E st fs buffer cp (hashPngPixels E cp) (computeFingerprint E cp)
        (bucketKey (width cp) (height cp) (computeFingerprint E cp))"
    if gt: "?a < ?k"
  proof -
    have "candidateMismatches E st fs cp ?a kb = Inr None" using cb gt by simp
    then have "\<forall>k' \<in> set ks. \<forall>m'. candidateMismatches E st fs cp ?a k' \<noteq> Inr (Some m')"
      using others by (metis Inr_inject option.distinct(1))
    then have "res = (None, \<infinity>)" by (rule scan_none [OF res])
    then show ?thesis
      using register_new [OF dec miss, of fs \<infinity>] res bucket by simp
  qed
  show ?thesis
  proof (intro conjI impI)
    assume "?k \<le> ?a"
    then show "register E st fs buffer =
          Inr ((texturePath info, filePath info),
               st\<lparr>exactHashToKey := (exactHashToKey st)(hashPngPixels E cp \<mapsto> kb)\<rparr>, fs)"
      by (rule within)
  next
    assume h: "?a < ?k \<and>
      map_of (dirEntries fs) (SHARED_TEXTURE_PREFIX @ hashPngPixels E cp @ ''@2x.png'') = None \<and>
      dirWritable fs"
    then show "register E st fs buffer =
          Inr ((texturePathForKey E (SHARED_TEXTURE_PREFIX @ hashPngPixels E cp),
                pathJoin (sharedDir E) (SHARED_TEXTURE_PREFIX @ hashPngPixels E cp @ ''@2x.png'')),
               addEntry st (hashPngPixels E cp)
                 (bucketKey (width cp) (height cp) (computeFingerprint E cp))
                 \<lparr>key = SHARED_TEXTURE_PREFIX @ hashPngPixels E cp,
                   width = width cp, height = height cp,
                   fingerprint = computeFingerprint E cp,
                   filePath = pathJoin (sharedDir E)
                     (SHARED_TEXTURE_PREFIX @ hashPngPixels E cp @ ''@2x.png''),
                   texturePath = texturePathForKey E (SHARED_TEXTURE_PREFIX @ hashPngPixels E cp)\<rparr>,
               fs\<lparr>dirExists := True,
                    dirEntries := dirEntries fs @
                      [(SHARED_TEXTURE_PREFIX @ hashPngPixels E cp @ ''@2x.png'',
                        RegularFile buffer)]\<rparr>)"
      using beyond
      by (simp add: registerNew_def Let_def exists_def writeFileSafe_def entryName_pathJoin
          upsert_absent)
  qed
qed

text \<open>
  Claim C1, amended. The base bitmap is stored under the key \<open>kb\<close>, the copy has its
  dimensions, an unknown digest and the base's bucket, and no other candidate of that
  bucket is within the budget. With \<open>k\<close> the number of pixels at which the copy
  mismatches the base: if \<open>k\<close> is within the budget, \<open>register\<close> returns the base's
  reference and leaves the directory as it is; if \<open>k\<close> exceeds the budget, and no file
  stands at the new path of a writable directory, \<open>register\<close> creates a new entry and
  writes the copy's bytes to a new file.
\<close>

theorem near_duplicate_threshold:
  assumes dec: "decodePng E buffer = Some cp"
    and miss: "exactHashToKey st (hashPngPixels E cp) = None"
    and bucket: "bucketToKeys st (bucketKey (width cp) (height cp) (computeFingerprint E cp)) = Some ks"
    and kb: "kb \<in> set ks" "kb \<noteq> []"
    and base: "keyToInfo st kb = Some info"
      "SharedTextureInfo.width info = width cp" "SharedTextureInfo.height info = height cp"
      "fsReadFile E fs (filePath info) = Some baseBuffer" "decodePng E baseBuffer = Some base"
      "width base = width cp" "height base = height cp"
      "length (data base) = length (data cp)"
    and others: "\<forall>k' \<in> set ks. k' \<noteq> kb \<longrightarrow>
        candidateMismatches E st fs cp (allowedMismatches (width cp) (height cp)) k' = Inr None"
  shows
    "(mismatchedPixels (data cp) (data base) \<le> allowedMismatches (width cp) (height cp) \<longrightarrow>
        register E st fs buffer =
          Inr ((texturePath info, filePath info),
               st\<lparr>exactHashToKey := (exactHashToKey st)(hashPngPixels E cp \<mapsto> kb)\<rparr>, fs)) \<and>
     (allowedMismatches (width cp) (height cp) < mismatchedPixels (data cp) (data base) \<and>
      map_of (dirEntries fs) (SHARED_TEXTURE_PREFIX @ hashPngPixels E cp @ ''@2x.png'') = None \<and>
      dirWritable fs \<longrightarrow>
        register E st fs buffer =
          Inr ((texturePathForKey E (SHARED_TEXTURE_PREFIX @ hashPngPixels E cp),
                pathJoin (sharedDir E) (SHARED_TEXTURE_PREFIX @ hashPngPixels E cp @ ''@2x.png'')),
               addEntry st (hashPngPixels E cp)
                 (bucketKey (width cp) (height cp) (computeFingerprint E cp))
                 \<lparr>key = SHARED_TEXTURE_PREFIX @ hashPngPixels E cp,
                   width = width cp, height = height cp,
                   fingerprint = computeFingerprint E cp,
                   filePath = pathJoin (sharedDir E)
                     (SHARED_TEXTURE_PREFIX @ hashPngPixels E cp @ ''@2x.png''),
                   texturePath = texturePathForKey E (SHARED_TEXTURE_PREFIX @ hashPngPixels E cp)\<rparr>,
               fs\<lparr>dirExists := True,
                    dirEntries := dirEntries fs @
                      [(SHARED_TEXTURE_PREFIX @ hashPngPixels E cp @ ''@2x.png'',
                        RegularFile buffer)]\<rparr>))"
  using assms by (rule near_duplicate_core)

section \<open>Rehydration after a registration\<close>

lemma hex_isStoreKey: "hexDigests E \<Longrightarrow> isStoreKey (SHARED_TEXTURE_PREFIX @ hashPngPixels E d)"
  by (simp add: hexDigests_def isStoreKey_def hashPngPixels_def sha256Hex_def)

lemma matchFileName_key: "isStoreKey k \<Longrightarrow> matchFileName (k @ ''@2x.png'') = Some k"
  by (simp add: matchFileName_def Let_def)















section \<open>Evaluation in the example environment\<close>

lemma ex_decode:
  "decodePng exEnv (1 # 1 # r # g # b # a # trailer) =
     Some \<lparr>width = Suc 0, height = Suc 0, data = [r, g, b, a]\<rparr>"
  by (simp add: decodePng_def exEnv_def exDecode_def)

lemma sizeHeader_1x1: "sizeHeader (Suc 0) (Suc 0) = [49, 120, 49, 0]"
  by (simp add: sizeHeader_def decimal.simps)

lemma ex_hash_100:
  "hashPngPixels exEnv \<lparr>width = Suc 0, height = Suc 0, data = [100, 100, 100, 255]\<rparr> = ''31783100646464ff000000000000000000000000000000000000000000000000''"
  by (simp add: hashPngPixels_def sha256Hex_def exEnv_def exDigest_def sizeHeader_1x1 exHexByte_def)

lemma cell_1x1:
  "fingerprintCell \<lparr>width = Suc 0, height = Suc 0, data = [r, g, b, a]\<rparr> y x =
     [quant (premul r a), quant (premul g a), quant (premul b a), quant a]"
proof -
  have "min 0 ((2 * int y + 1) div 32) = 0" "min 0 ((2 * int x + 1) div 32) = 0"
    by simp_all
  then show ?thesis
    by (simp add: fingerprintCell_def DEDUPE_FINGERPRINT_SIZE_def Let_def byteAt_def)
qed

lemma length_cells: "length (concat (map (fingerprintCell d y) xs)) = 4 * length xs"
  by (induction xs) (simp_all add: fingerprintCell_def Let_def)

lemma grid_head:
  "take 32 (fingerprintGrid d @ pad) = concat (map (fingerprintCell d 0) [0..<8])"
proof -
  let ?row = "\<lambda>y. concat (map (fingerprintCell d y) [0..<16])"
  have u: "[0..<16] = 0 # [1..<16]" by (simp add: upt_conv_Cons)
  have v: "[0..<16] = [0..<8] @ [8..<16]"
    using upt_add_eq_append [of 0 8 8] by simp
  have "fingerprintGrid d = ?row 0 @ concat (map ?row [1..<16])"
    unfolding fingerprintGrid_def DEDUPE_FINGERPRINT_SIZE_def by (subst u) simp
  moreover have "?row 0 = concat (map (fingerprintCell d 0) [0..<8]) @
      concat (map (fingerprintCell d 0) [8..<16])"
    by (subst v) simp
  moreover have "length (concat (map (fingerprintCell d 0) [0..<8])) = 32"
    by (simp add: length_cells)
  ultimately show ?thesis by simp
qed

lemma ex_fingerprint:
  "computeFingerprint exEnv d = concat (map exHexByte (concat (map (fingerprintCell d 0) [0..<8])))"
proof -
  have "exDigest (fingerprintGrid d) =
      concat (map exHexByte (take 32 (fingerprintGrid d @
       [0, 0, 0, 0, 0, 0, 0, 0, 0, 0, 0, 0, 0, 0, 0, 0,
        0, 0, 0, 0, 0, 0, 0, 0, 0, 0, 0, 0, 0, 0, 0, 0])))"
    by (simp only: exDigest_def)
  then have "exDigest (fingerprintGrid d) =
      concat (map exHexByte (concat (map (fingerprintCell d 0) [0..<8])))"
    by (simp only: grid_head)
  then show ?thesis by (simp add: computeFingerprint_def sha256Hex_def exEnv_def)
qed

lemma ex_fp_100:
  "computeFingerprint exEnv \<lparr>width = Suc 0, height = Suc 0, data = [100, 100, 100, 255]\<rparr> = ''0606060f0606060f0606060f0606060f0606060f0606060f0606060f0606060f''"
  by (simp add: ex_fingerprint cell_1x1 upt_rec quant_def premul_def roundDiv_def exHexByte_def)

lemma exDecode: "decodePng exEnv (exBitmap v @ trailer) = Some (exDecoded v)"
  by (simp add: decodePng_def exEnv_def exDecode_def exBitmap_def exDecoded_def)

lemma exDecode0: "decodePng exEnv (exBitmap v) = Some (exDecoded v)"
  using exDecode [of v "[]"] by simp

lemma exHash:
  "hashPngPixels exEnv (exDecoded v) =
     ''31783100'' @ exHexByte v @ ''6464ff000000000000000000000000000000000000000000000000''"
  by (simp add: hashPngPixels_def sha256Hex_def exEnv_def exDigest_def sizeHeader_1x1
      exDecoded_def exHexByte_def)

lemma exFingerprint:
  "computeFingerprint exEnv (exDecoded v) =
     concat (map exHexByte (concat (map (\<lambda>x. [quant v, 6, 6, 15]) [0..<8])))"
proof -
  have "premul v 255 = v" "premul 100 255 = 100" by (simp_all add: premul_def roundDiv_def)
  moreover have "quant 100 = 6" "quant 255 = 15" by (simp_all add: quant_def roundDiv_def)
  ultimately have "fingerprintCell (exDecoded v) 0 = (\<lambda>x. [quant v, 6, 6, 15])"
    by (auto simp: exDecoded_def cell_1x1)
  then show ?thesis by (simp only: ex_fingerprint)
qed

lemma exQuant: "quant 100 = 6" "quant 104 = 6" "quant 108 = 6" "quant 112 = 7"
  by (simp_all add: quant_def roundDiv_def)

lemma exBucket_same: "exBucket 104 = exBucket 108" "exBucket 100 = exBucket 108"
  by (simp_all add: exBucket_def exFingerprint exQuant)

lemma exBucket_other: "exBucket 112 \<noteq> exBucket 108"
  by (simp add: exBucket_def exFingerprint exQuant bucketKey_def upt_rec exHexByte_def)

lemma exKey_distinct:
  "exKey 100 \<noteq> exKey 104" "exKey 100 \<noteq> exKey 108" "exKey 104 \<noteq> exKey 108"
  "exKey 104 \<noteq> exKey 100" "exKey 108 \<noteq> exKey 100" "exKey 108 \<noteq> exKey 104"
  "exKey 112 \<noteq> exKey 108" "exKey 108 \<noteq> exKey 112"
  by (simp_all add: exKey_def exHash exHexByte_def)

lemma exHash_distinct:
  "hashPngPixels exEnv (exDecoded 100) \<noteq> hashPngPixels exEnv (exDecoded 104)"
  "hashPngPixels exEnv (exDecoded 100) \<noteq> hashPngPixels exEnv (exDecoded 108)"
  "hashPngPixels exEnv (exDecoded 104) \<noteq> hashPngPixels exEnv (exDecoded 108)"
  "hashPngPixels exEnv (exDecoded 104) \<noteq> hashPngPixels exEnv (exDecoded 100)"
  "hashPngPixels exEnv (exDecoded 108) \<noteq> hashPngPixels exEnv (exDecoded 100)"
  "hashPngPixels exEnv (exDecoded 108) \<noteq> hashPngPixels exEnv (exDecoded 104)"
  "hashPngPixels exEnv (exDecoded 112) \<noteq> hashPngPixels exEnv (exDecoded 108)"
  by (simp_all add: exHash exHexByte_def)

lemma exKey_order: "exKey 100 < exKey 108" "exKey 100 \<le> exKey 108" "\<not> exKey 108 \<le> exKey 100"
  by (simp_all add: exKey_def exHash exHexByte_def SHARED_TEXTURE_PREFIX_def less_char_def less_eq_char_def)

lemma exKey_nonempty: "exKey v \<noteq> []"
  by (simp add: exKey_def SHARED_TEXTURE_PREFIX_def)

lemma premul_255: "premul x 255 = x"
  by (simp add: premul_def roundDiv_def)

lemma byteAt_pixel:
  "byteAt [r, g, b, a] (int 0) = r" "byteAt [r, g, b, a] (int 0 + 1) = g"
  "byteAt [r, g, b, a] (int 0 + 2) = b" "byteAt [r, g, b, a] (int 0 + 3) = a"
  by (simp_all add: byteAt_def)

lemma pixelMismatch_opaque:
  "pixelMismatch [x, g, b, 255] [y, g, b, 255] 0 = (DEDUPE_CHANNEL_TOLERANCE < absDiff x y)"
  unfolding pixelMismatch_def Let_def byteAt_pixel premul_255
  by (simp add: absDiff_def DEDUPE_ALPHA_IGNORE_BELOW_def)

lemma pixelOffsets_one: "pixelOffsets 0 4 = [0]"
  by (simp add: pixelOffsets.simps)

lemma exMismatch_eval:
  "mismatchedPixels (data (exDecoded x)) (data (exDecoded y)) =
     (if DEDUPE_CHANNEL_TOLERANCE < absDiff x y then 1 else 0)"
proof -
  have l: "length (data (exDecoded x)) = 4" by (simp add: exDecoded_def)
  show ?thesis
    unfolding mismatchedPixels_def l pixelOffsets_one
    by (simp add: exDecoded_def pixelMismatch_opaque)
qed

lemma exMismatch:
  "mismatchedPixels (data (exDecoded 104)) (data (exDecoded 108)) = 0"
  "mismatchedPixels (data (exDecoded 100)) (data (exDecoded 108)) = 1"
  "mismatchedPixels (data (exDecoded 104)) (data (exDecoded 100)) = 0"
  "mismatchedPixels (data (exDecoded 112)) (data (exDecoded 108)) = 0"
  by (simp_all add: exMismatch_eval absDiff_def DEDUPE_CHANNEL_TOLERANCE_def)

subsection \<open>Facts about the example data\<close>

lemma exDecoded_sel [simp]:
  "width (exDecoded v) = 1" "height (exDecoded v) = 1" "data (exDecoded v) = [v, 100, 100, 255]"
  by (simp_all add: exDecoded_def)

lemma exInfo_sel [simp]:
  "key (exInfo v) = exKey v" "SharedTextureInfo.width (exInfo v) = 1"
  "SharedTextureInfo.height (exInfo v) = 1"
  "filePath (exInfo v) = pathJoin (sharedDir exEnv) (exKey v @ ''@2x.png'')"
  "texturePath (exInfo v) = texturePathForKey exEnv (exKey v)"
  by (simp_all add: exInfo_def)

lemma exBucket_eq [simp]:
  "bucketKey (Suc 0) (Suc 0) (computeFingerprint exEnv (exDecoded v)) = exBucket v"
  by (simp add: exBucket_def)

lemma exAllowed [simp]: "allowedMismatches (Suc 0) (Suc 0) = 0"
  by (simp add: allowedMismatches_exact)

lemma exName_distinct [simp]:
  "exKey 100 @ ''@2x.png'' \<noteq> exKey 108 @ ''@2x.png''"
  "exKey 108 @ ''@2x.png'' \<noteq> exKey 100 @ ''@2x.png''"
  "exKey 112 @ ''@2x.png'' \<noteq> exKey 108 @ ''@2x.png''"
  "exKey 104 @ ''@2x.png'' \<noteq> exKey 108 @ ''@2x.png''"
  "exKey 104 @ ''@2x.png'' \<noteq> exKey 100 @ ''@2x.png''"
  using exKey_distinct by simp_all

lemma exRead:
  "fsReadFile exEnv exDir1 (pathJoin (sharedDir exEnv) (exKey 108 @ ''@2x.png'')) = Some (exBitmap 108)"
  "fsReadFile exEnv exDir3 (pathJoin (sharedDir exEnv) (exKey 108 @ ''@2x.png'')) = Some (exBitmap 108)"
  "fsReadFile exEnv exDir3 (pathJoin (sharedDir exEnv) (exKey 100 @ ''@2x.png'')) = Some (exBitmap 100)"
  by (simp_all add: fsReadFile_def entryName_pathJoin exDir1_def exDir3_def exFile_def exKey_distinct)

lemma exStore1_sel:
  "exactHashToKey exStore1 = [hashPngPixels exEnv (exDecoded 108) \<mapsto> exKey 108]"
  "bucketToKeys exStore1 = [exBucket 108 \<mapsto> [exKey 108]]"
  "keyToInfo exStore1 = [exKey 108 \<mapsto> exInfo 108]"
  by (simp_all add: exStore1_def addEntry_sel emptyStore_def)



lemma exStoreR_sel:
  "exactHashToKey exStoreR =
     [hashPngPixels exEnv (exDecoded 108) \<mapsto> exKey 108,
      hashPngPixels exEnv (exDecoded 100) \<mapsto> exKey 100]"
  "bucketToKeys exStoreR = [exBucket 108 \<mapsto> [exKey 100, exKey 108]]"
  "keyToInfo exStoreR = [exKey 108 \<mapsto> exInfo 108, exKey 100 \<mapsto> exInfo 100]"
  by (simp_all add: exStoreR_def addEntry_sel exStore1_sel exBucket_same exKey_order)


subsection \<open>A run of the store\<close>

lemma ex_step1:
  "register exEnv emptyStore exEmptyDir (exBitmap 108) = Inr (exRef 108, exStore1, exDir1)"
  using register_empty [OF exDecode0 [of 108], of exEmptyDir]
  by (simp add: exEmptyDir_def exRef_def exStore1_def exDir1_def exFile_def exKey_def exInfo_def)

lemma exMismatch_list:
  "mismatchedPixels [x, 100, 100, 255] [y, 100, 100, 255] =
     (if DEDUPE_CHANNEL_TOLERANCE < absDiff x y then 1 else 0)"
  using exMismatch_eval [of x y] by simp

lemma ex_compare:
  assumes "exactHashToKey st (hashPngPixels exEnv (exDecoded v)) = None"
    and "bucketToKeys st (exBucket v) = Some [exKey 108]"
    and "keyToInfo st (exKey 108) = Some (exInfo 108)"
    and "fsReadFile exEnv fs (pathJoin (sharedDir exEnv) (exKey 108 @ ''@2x.png'')) =
           Some (exBitmap 108)"
  shows "(absDiff v 108 \<le> 4 \<longrightarrow>
            register exEnv st fs (exBitmap v) =
              Inr (exRef 108,
                   st\<lparr>exactHashToKey :=
                        (exactHashToKey st)(hashPngPixels exEnv (exDecoded v) \<mapsto> exKey 108)\<rparr>,
                   fs)) \<and>
         (4 < absDiff v 108 \<and> map_of (dirEntries fs) (exKey v @ ''@2x.png'') = None \<and>
          dirWritable fs \<longrightarrow>
            register exEnv st fs (exBitmap v) =
              Inr (exRef v,
                   addEntry st (hashPngPixels exEnv (exDecoded v)) (exBucket v) (exInfo v),
                   fs\<lparr>dirExists := True, dirEntries := dirEntries fs @ [exFile v]\<rparr>))"
  using near_duplicate_core [where E = exEnv and buffer = "exBitmap v" and cp = "exDecoded v"
      and st = st and fs = fs and ks = "[exKey 108]" and kb = "exKey 108"
      and info = "exInfo 108" and baseBuffer = "exBitmap 108" and base = "exDecoded 108"]
    assms
  by (simp add: exDecode0 exMismatch_list DEDUPE_CHANNEL_TOLERANCE_def
      exRef_def exKey_def exInfo_def exFile_def SHARED_TEXTURE_PREFIX_def split: if_splits)

lemma exDir1_sel [simp]:
  "dirEntries exDir1 = [exFile 108]" "dirWritable exDir1" "dirReadable exDir1" "dirExists exDir1"
  by (simp_all add: exDir1_def)

lemma exDir3_sel [simp]:
  "dirEntries exDir3 = [exFile 108, exFile 100]" "dirWritable exDir3" "dirReadable exDir3"
  "dirExists exDir3"
  by (simp_all add: exDir3_def)

lemma exDir13: "exDir1\<lparr>dirExists := True, dirEntries := [exFile 108, exFile 100]\<rparr> = exDir3"
  by (simp add: exDir1_def exDir3_def)

lemma ex_step2:
  "register exEnv exStore1 exDir1 (exBitmap 104) = Inr (exRef 108, exStore2, exDir1)"
  using ex_compare [of exStore1 104 exDir1]
  by (simp add: exStore1_sel exHash_distinct exBucket_same exRead absDiff_def exStore2_def)




lemma exHexByte_hex: "list_all isHexLower (exHexByte b) \<and> length (exHexByte b) = 2"
proof -
  have "''0123456789abcdef'' ! n \<in> set ''0123456789abcdef''" if "n < 16" for n
    using that nth_mem [of n "''0123456789abcdef''"] by simp
  then show ?thesis
    by (simp add: exHexByte_def isHexLower_def)
qed

lemma exDigest_hex: "list_all isHexLower (exDigest x) \<and> length (exDigest x) = 64"
proof -
  have "list_all isHexLower (concat (map exHexByte l)) \<and>
        length (concat (map exHexByte l)) = 2 * length l" for l
    by (induction l) (simp_all add: exHexByte_hex)
  then show ?thesis by (simp add: exDigest_def)
qed

lemma exEnv_hexDigests: "hexDigests exEnv"
  by (simp add: hexDigests_def exEnv_def exDigest_hex)

lemma ex_match [simp]: "matchFileName (exKey v @ ''@2x.png'') = Some (exKey v)"
  unfolding exKey_def
  by (rule matchFileName_key, rule hex_isStoreKey, rule exEnv_hexDigests)

lemma ex_rehydrate: "init exEnv exDir3 = Inr (exStoreR, exDir3)"
  by (simp add: init_def mkdir_def exFile_def exDecode0 Let_def exStoreR_def exStore1_def
      exInfo_def)

lemma ex_candidate:
  assumes "keyToInfo st (exKey w) = Some (exInfo w)"
    and "fsReadFile exEnv fs (pathJoin (sharedDir exEnv) (exKey w @ ''@2x.png'')) =
           Some (exBitmap w)"
  shows "candidateMismatches exEnv st fs (exDecoded v) 0 (exKey w) =
           (if absDiff v w \<le> 4 then Inr (Some 0) else Inr None)"
  using candidateMismatches_base [where E = exEnv and st = st and kb = "exKey w"
      and info = "exInfo w" and cp = "exDecoded v" and fs = fs and baseBuffer = "exBitmap w"
      and base = "exDecoded w" and allowed = 0] assms
  by (simp add: exDecode0 exMismatch_list DEDUPE_CHANNEL_TOLERANCE_def)

lemma ex_rescan:
  "register exEnv exStoreR exDir3 (exBitmap 104) =
     Inr (exRef 100,
          exStoreR\<lparr>exactHashToKey :=
            (exactHashToKey exStoreR)(hashPngPixels exEnv (exDecoded 104) \<mapsto> exKey 100)\<rparr>,
          exDir3)"
proof -
  have c: "candidateMismatches exEnv exStoreR exDir3 (exDecoded 104) 0 (exKey 100) = Inr (Some 0)"
      "candidateMismatches exEnv exStoreR exDir3 (exDecoded 104) 0 (exKey 108) = Inr (Some 0)"
    by (simp_all add: ex_candidate exStoreR_sel exRead exKey_distinct absDiff_def)
  from tie_break_core [where E = exEnv and buffer = "exBitmap 104" and d = "exDecoded 104"
      and st = exStoreR and fs = exDir3 and ks = "[exKey 100, exKey 108]" and k = "exKey 100"
      and m = 0 and ks' = "[exKey 100, exKey 108]"] c
  show ?thesis
    by (simp add: exDecode0 exStoreR_sel exHash_distinct exBucket_same exKey_nonempty
        exKey_order exKey_distinct exRef_def)
qed


section \<open>The claims at concrete inputs\<close>

lemma register_fresh:
  assumes "decodePng E buffer = Some d"
    and "exactHashToKey st (hashPngPixels E d) = None"
    and "bucketToKeys st (bucketKey (width d) (height d) (computeFingerprint E d)) = None"
    and "map_of (dirEntries fs) (SHARED_TEXTURE_PREFIX @ hashPngPixels E d @ ''@2x.png'') = None"
    and "dirWritable fs"
  shows "register E st fs buffer =
     Inr ((texturePathForKey E (SHARED_TEXTURE_PREFIX @ hashPngPixels E d),
           pathJoin (sharedDir E) (SHARED_TEXTURE_PREFIX @ hashPngPixels E d @ ''@2x.png'')),
          addEntry st (hashPngPixels E d)
            (bucketKey (width d) (height d) (computeFingerprint E d))
            \<lparr>key = SHARED_TEXTURE_PREFIX @ hashPngPixels E d, width = width d, height = height d,
              fingerprint = computeFingerprint E d,
              filePath = pathJoin (sharedDir E) (SHARED_TEXTURE_PREFIX @ hashPngPixels E d @ ''@2x.png''),
              texturePath = texturePathForKey E (SHARED_TEXTURE_PREFIX @ hashPngPixels E d)\<rparr>,
          fs\<lparr>dirExists := True,
               dirEntries := dirEntries fs @
                 [(SHARED_TEXTURE_PREFIX @ hashPngPixels E d @ ''@2x.png'', RegularFile buffer)]\<rparr>)"
proof -
  have "register E st fs buffer =
      registerNew E st fs buffer d (hashPngPixels E d) (computeFingerprint E d)
        (bucketKey (width d) (height d) (computeFingerprint E d))"
    by (rule register_new [OF assms(1,2)]) (simp add: assms(3))
  then show ?thesis
    using assms(4,5)
    by (simp add: registerNew_def Let_def exists_def writeFileSafe_def entryName_pathJoin
        upsert_absent)
qed

text \<open>
  Claim C1 fails as stated: the bitmap with the red value 108 is stored, and the copy
  with the red value 112 differs from it within the tolerance at its only pixel, so the
  number of mismatched pixels, 0, is within the budget, 0. But 108 and 112 fall into
  different quantisation levels, the fingerprints differ, the copy finds no candidate in
  its bucket and is stored as a new entry with a new file.
\<close>

theorem near_duplicate_other_bucket:
  "register exEnv emptyStore exEmptyDir (exBitmap 108) = Inr (exRef 108, exStore1, exDir1) \<and>
   decodePng exEnv (exBitmap 112) = Some (exDecoded 112) \<and>
   width (exDecoded 112) = width (exDecoded 108) \<and>
   height (exDecoded 112) = height (exDecoded 108) \<and>
   mismatchedPixels (data (exDecoded 112)) (data (exDecoded 108))
     \<le> allowedMismatches (width (exDecoded 112)) (height (exDecoded 112)) \<and>
   register exEnv exStore1 exDir1 (exBitmap 112) =
     Inr (exRef 112,
          addEntry exStore1 (hashPngPixels exEnv (exDecoded 112)) (exBucket 112) (exInfo 112),
          exDir1\<lparr>dirEntries := [exFile 108, exFile 112]\<rparr>) \<and>
   exRef 112 \<noteq> exRef 108"
proof -
  have "register exEnv exStore1 exDir1 (exBitmap 112) =
     Inr (exRef 112,
          addEntry exStore1 (hashPngPixels exEnv (exDecoded 112)) (exBucket 112) (exInfo 112),
          exDir1\<lparr>dirEntries := [exFile 108, exFile 112]\<rparr>)"
    using register_fresh [where E = exEnv and buffer = "exBitmap 112" and d = "exDecoded 112"
        and st = exStore1 and fs = exDir1]
    by (simp add: exDecode0 exStore1_sel exHash_distinct exBucket_other exFile_def exKey_def
        exRef_def exInfo_def exDir1_def SHARED_TEXTURE_PREFIX_def)
  moreover have "exRef 112 \<noteq> exRef 108"
    by (simp add: exRef_def texturePathForKey_def exKey_distinct)
  ultimately show ?thesis
    by (simp add: ex_step1 exDecode0 exMismatch_list absDiff_def DEDUPE_CHANNEL_TOLERANCE_def)
qed

theorem near_duplicate_threshold_witness:
  "mismatchedPixels (data (exDecoded 104)) (data (exDecoded 108)) = 0 \<and>
   mismatchedPixels (data (exDecoded 100)) (data (exDecoded 108)) = 1 \<and>
   allowedMismatches (width (exDecoded 104)) (height (exDecoded 104)) = 0 \<and>
   register exEnv exStore1 exDir1 (exBitmap 104) = Inr (exRef 108, exStore2, exDir1) \<and>
   register exEnv exStore1 exDir1 (exBitmap 100) = Inr (exRef 100, exStoreR, exDir3)"
proof -
  have store:
    "exactHashToKey exStore1 (hashPngPixels exEnv (exDecoded 104)) = None"
    "exactHashToKey exStore1 (hashPngPixels exEnv (exDecoded 100)) = None"
    "bucketToKeys exStore1 (exBucket 104) = Some [exKey 108]"
    "bucketToKeys exStore1 (exBucket 100) = Some [exKey 108]"
    "keyToInfo exStore1 (exKey 108) = Some (exInfo 108)"
    "map_of (dirEntries exDir1) (exKey 100 @ ''@2x.png'') = None"
    by (simp_all add: exStore1_sel exHash_distinct exBucket_same exFile_def exKey_distinct)
  have within: "register exEnv exStore1 exDir1 (exBitmap 104) = Inr (exRef 108, exStore2, exDir1)"
    using
      near_duplicate_threshold [where E = exEnv and buffer = "exBitmap 104"
        and cp = "exDecoded 104" and st = exStore1 and fs = exDir1 and ks = "[exKey 108]"
        and kb = "exKey 108" and info = "exInfo 108" and baseBuffer = "exBitmap 108"
        and base = "exDecoded 108"]
      store exRead(1)
    by (simp add: exDecode0 exMismatch_list DEDUPE_CHANNEL_TOLERANCE_def absDiff_def
        exRef_def exKey_def exInfo_def exFile_def exStore2_def SHARED_TEXTURE_PREFIX_def)
  have beyond: "register exEnv exStore1 exDir1 (exBitmap 100) = Inr (exRef 100, exStoreR, exDir3)"
    using
      near_duplicate_threshold [where E = exEnv and buffer = "exBitmap 100"
        and cp = "exDecoded 100" and st = exStore1 and fs = exDir1 and ks = "[exKey 108]"
        and kb = "exKey 108" and info = "exInfo 108" and baseBuffer = "exBitmap 108"
        and base = "exDecoded 108"]
      store exRead(1)
    by (simp add: exDecode0 exMismatch_list DEDUPE_CHANNEL_TOLERANCE_def absDiff_def
        exRef_def exKey_def exInfo_def exFile_def exStoreR_def exBucket_same
        exDir13 [unfolded exFile_def exKey_def] SHARED_TEXTURE_PREFIX_def)
  show ?thesis
    using within beyond
    by (simp add: exMismatch_list DEDUPE_CHANNEL_TOLERANCE_def absDiff_def)
qed


lemma exEmptyDir_sel [simp]:
  "dirEntries exEmptyDir = []" "dirWritable exEmptyDir" "dirReadable exEmptyDir"
  "dirExists exEmptyDir"
  by (simp_all add: exEmptyDir_def)

lemma ex_junk:
  "matchFileName ''readme.txt'' = None" "matchFileName ''t12@2x.png'' = None"
  by (simp_all add: matchFileName_def isStoreKey_def SHARED_TEXTURE_PREFIX_def)

lemma ex_again:
  "register exEnv exStore1 exDir1 (exBitmap 108 @ trailer) = Inr (exRef 108, exStore1, exDir1)"
  using register_exact [where E = exEnv and buffer = "exBitmap 108 @ trailer"
      and d = "exDecoded 108" and st = exStore1 and k = "exKey 108" and info = "exInfo 108"
      and fs = exDir1]
  by (simp add: exDecode exStore1_sel exKey_nonempty exRef_def)

text \<open>
  Claim C2 fails as stated where the bitmap is already stored: the two buffers below
  differ, decode to the same pixels and get the same reference, but neither call creates
  a file.
\<close>

theorem exact_dedup_creates_no_file:
  "register exEnv emptyStore exEmptyDir (exBitmap 108) = Inr (exRef 108, exStore1, exDir1) \<and>
   exBitmap 108 @ [7] \<noteq> exBitmap 108 \<and>
   decodePng exEnv (exBitmap 108) = Some (exDecoded 108) \<and>
   decodePng exEnv (exBitmap 108 @ [7]) = Some (exDecoded 108) \<and>
   register exEnv exStore1 exDir1 (exBitmap 108) = Inr (exRef 108, exStore1, exDir1) \<and>
   register exEnv exStore1 exDir1 (exBitmap 108 @ [7]) = Inr (exRef 108, exStore1, exDir1)"
  using ex_again [of "[]"] ex_again [of "[7]"]
  by (simp add: ex_step1 exDecode0 exDecode)

theorem exact_dedup_witness:
  "\<not> exactMatch exEnv emptyStore (exDecoded 108) \<and>
   \<not> nearMatch exEnv emptyStore exEmptyDir (exDecoded 108) \<and>
   (\<exists>r stN fsN. register exEnv emptyStore exEmptyDir (exBitmap 108) = Inr (r, stN, fsN) \<and>
      register exEnv stN fsN (exBitmap 108 @ [7]) = Inr (r, stN, fsN)) \<and>
   register exEnv emptyStore exEmptyDir (exBitmap 108) = Inr (exRef 108, exStore1, exDir1) \<and>
   register exEnv exStore1 exDir1 (exBitmap 108 @ [7]) = Inr (exRef 108, exStore1, exDir1) \<and>
   dirEntries exDir1 = [(ownFileName exEnv (exDecoded 108), RegularFile (exBitmap 108))] \<and>
   nearMatch exEnv exStore1 exDir1 (exDecoded 104) \<and> keyToInfo exStore1 [] = None \<and>
   register exEnv exStore1 exDir1 (exBitmap 104) = Inr (exRef 108, exStore2, exDir1) \<and>
   register exEnv exStore2 exDir1 (exBitmap 104 @ [7]) = Inr (exRef 108, exStore2, exDir1)"
proof -
  have none: "\<not> exactMatch exEnv emptyStore (exDecoded 108)"
    "\<not> nearMatch exEnv emptyStore exEmptyDir (exDecoded 108)"
    by (simp_all add: exactMatch_def nearMatch_def emptyStore_def)
  have c: "candidateMismatches exEnv exStore1 exDir1 (exDecoded 104) 0 (exKey 108) = Inr (Some 0)"
    by (simp add: ex_candidate exStore1_sel exRead absDiff_def)
  have near: "nearMatch exEnv exStore1 exDir1 (exDecoded 104)"
    unfolding nearMatch_def using c by (simp add: exStore1_sel exBucket_same)
  have nokey: "keyToInfo exStore1 [] = None"
    by (simp add: exStore1_sel exKey_nonempty [symmetric])
  note first = exact_dedup [where E = exEnv and bufA = "exBitmap 108"
      and bufB = "exBitmap 108 @ [7]" and d = "exDecoded 108" and st = emptyStore
      and fs = exEmptyDir and ref = "exRef 108" and stA = exStore1 and fsA = exDir1,
      OF exDecode0 exDecode]
  have total: "\<exists>r stN fsN. register exEnv emptyStore exEmptyDir (exBitmap 108) = Inr (r, stN, fsN) \<and>
      register exEnv stN fsN (exBitmap 108 @ [7]) = Inr (r, stN, fsN)"
    using first by (simp add: emptyStore_def)
  from first none
  have one: "register exEnv exStore1 exDir1 (exBitmap 108 @ [7]) = Inr (exRef 108, exStore1, exDir1)"
    "dirEntries exDir1 = [(ownFileName exEnv (exDecoded 108), RegularFile (exBitmap 108))]"
    by (simp_all add: ex_step1)
  from exact_dedup [where E = exEnv and bufA = "exBitmap 104" and bufB = "exBitmap 104 @ [7]"
      and d = "exDecoded 104" and st = exStore1 and fs = exDir1 and ref = "exRef 108"
      and stA = exStore2 and fsA = exDir1, OF exDecode0 exDecode]
  have two: "register exEnv exStore2 exDir1 (exBitmap 104 @ [7]) = Inr (exRef 108, exStore2, exDir1)"
    by (simp add: ex_step2)
  show ?thesis
    using none total near nokey one two by (simp add: ex_step1 ex_step2)
qed

theorem tie_break_smallest_key_witness:
  "exKey 100 < exKey 108 \<and>
   register exEnv exStoreR exDir3 (exBitmap 104) =
     Inr (exRef 100,
          exStoreR\<lparr>exactHashToKey :=
            (exactHashToKey exStoreR)(hashPngPixels exEnv (exDecoded 104) \<mapsto> exKey 100)\<rparr>,
          exDir3) \<and>
   register exEnv
      (exStoreR\<lparr>bucketToKeys := (bucketToKeys exStoreR)(exBucket 104 \<mapsto> [exKey 108, exKey 100])\<rparr>)
      exDir3 (exBitmap 104) =
     Inr (exRef 100,
          exStoreR\<lparr>bucketToKeys := (bucketToKeys exStoreR)(exBucket 104 \<mapsto> [exKey 108, exKey 100]),
                     exactHashToKey :=
            (exactHashToKey exStoreR)(hashPngPixels exEnv (exDecoded 104) \<mapsto> exKey 100)\<rparr>,
          exDir3)"
proof -
  have c: "candidateMismatches exEnv exStoreR exDir3 (exDecoded 104) 0 (exKey 100) = Inr (Some 0)"
      "candidateMismatches exEnv exStoreR exDir3 (exDecoded 104) 0 (exKey 108) = Inr (Some 0)"
    by (simp_all add: ex_candidate exStoreR_sel exRead exKey_distinct absDiff_def)
  from tie_break_smallest_key [where E = exEnv and buffer = "exBitmap 104"
      and d = "exDecoded 104" and st = exStoreR and fs = exDir3
      and ks = "[exKey 100, exKey 108]" and k = "exKey 100" and m = 0
      and ks' = "[exKey 108, exKey 100]"] c
  show ?thesis
    by (simp add: exDecode0 exStoreR_sel exHash_distinct exBucket_same exKey_nonempty
        exKey_order exKey_distinct exRef_def)
qed







theorem index_consistency_preserved_witness:
  "storeConsistent exStoreR \<and>
   storeConsistent (exStoreR\<lparr>exactHashToKey :=
      (exactHashToKey exStoreR)(hashPngPixels exEnv (exDecoded 104) \<mapsto> exKey 100)\<rparr>)"
  using index_consistency_preserved [where E = exEnv and fs = exDir3 and st = exStoreR
      and fs' = exDir3 and stA = exStoreR and fsA = exDir3 and buffer = "exBitmap 104"
      and r = "exRef 100" and fsB = exDir3
      and stB = "exStoreR\<lparr>exactHashToKey :=
        (exactHashToKey exStoreR)(hashPngPixels exEnv (exDecoded 104) \<mapsto> exKey 100)\<rparr>"]
  by (simp add: ex_rehydrate ex_rescan)

lemma exFile_derived:
  "isStoreFile (exFile v)" "fileKey (exFile v) = exKey v"
  "storeEntryOf exEnv (exFile v) = exInfo v"
  "digestOf exEnv (exFile v) = hashPngPixels exEnv (exDecoded v)"
  "bucketOf exEnv (exFile v) = exBucket v"
proof -
  show "isStoreFile (exFile v)" "fileKey (exFile v) = exKey v"
    by (simp_all add: isStoreFile_def fileKey_def exFile_def)
  then have k: "fileKey (exFile v) = exKey v" by simp
  have d: "decodedOf exEnv (exFile v) = exDecoded v"
    by (simp add: decodedOf_def exFile_def exDecode0)
  show "storeEntryOf exEnv (exFile v) = exInfo v"
    unfolding storeEntryOf_def d k by (simp add: exInfo_def exFile_def)
  show "digestOf exEnv (exFile v) = hashPngPixels exEnv (exDecoded v)"
    by (simp add: digestOf_def d)
  show "bucketOf exEnv (exFile v) = exBucket v"
    by (simp add: bucketOf_def d)
qed

theorem rehydration_counts_store_files_witness:
  "length (dirEntries exDirMixed) = 5 \<and>
   length (filter isStoreFile (dirEntries exDirMixed)) = 2 \<and>
   (\<exists>st. init exEnv exDirMixed = Inr (st, exDirMixed) \<and> card (dom (keyToInfo st)) = 2 \<and>
      keyToInfo st (exKey 108) = Some (exInfo 108) \<and>
      keyToInfo st (exKey 100) = Some (exInfo 100) \<and>
      exactHashToKey st =
        [hashPngPixels exEnv (exDecoded 108) \<mapsto> exKey 108,
         hashPngPixels exEnv (exDecoded 100) \<mapsto> exKey 100] \<and>
      bucketToKeys st (exBucket 108) = Some [exKey 100, exKey 108])"
proof -
  have junk: "\<not> isStoreFile (''readme.txt'', RegularFile [7, 2, 3])"
    "\<not> isStoreFile (''thumbs'', OtherEntry)" "\<not> isStoreFile (''t12@2x.png'', RegularFile [])"
    by (simp_all add: isStoreFile_def ex_junk)
  have entries: "dirEntries exDirMixed =
      [(''readme.txt'', RegularFile [7, 2, 3]), exFile 108, (''thumbs'', OtherEntry),
       exFile 100, (''t12@2x.png'', RegularFile [])]"
    by (simp add: exDirMixed_def)
  have f: "filter isStoreFile (dirEntries exDirMixed) = [exFile 108, exFile 100]"
    unfolding entries by (simp add: junk exFile_derived)
  have fb: "filter (\<lambda>e. isStoreFile e \<and> bucketOf exEnv e = exBucket 108) (dirEntries exDirMixed) =
      [exFile 108, exFile 100]"
    unfolding entries by (simp add: junk exFile_derived exBucket_same)
  have d: "distinct (map fst (dirEntries exDirMixed))"
    by (simp add: exDirMixed_def exFile_def exKey_def exHash exHexByte_def
        SHARED_TEXTURE_PREFIX_def)
  have dec: "\<forall>e \<in> set (dirEntries exDirMixed). isStoreFile e \<longrightarrow> decodable exEnv e"
  proof (intro ballI impI)
    fix e assume "e \<in> set (dirEntries exDirMixed)" "isStoreFile e"
    then have "e \<in> set (filter isStoreFile (dirEntries exDirMixed))" by simp
    then show "decodable exEnv e"
      unfolding f by (auto simp: decodable_def exFile_def exDecode0)
  qed
  have sel: "dirExists exDirMixed" "dirReadable exDirMixed" "length (dirEntries exDirMixed) = 5"
    by (simp_all add: exDirMixed_def)
  have mem: "exFile 108 \<in> set (dirEntries exDirMixed)" "exFile 100 \<in> set (dirEntries exDirMixed)"
    unfolding entries by simp_all
  from rehydration_counts_store_files [of exDirMixed exEnv, OF sel(1) sel(2) d dec]
  obtain st where st: "init exEnv exDirMixed = Inr (st, exDirMixed)"
    "card (dom (keyToInfo st)) = length (filter isStoreFile (dirEntries exDirMixed))"
    "\<forall>e \<in> set (dirEntries exDirMixed). isStoreFile e \<longrightarrow>
       keyToInfo st (fileKey e) = Some (storeEntryOf exEnv e)"
    "exactHashToKey st =
       map_of (rev (map (\<lambda>e. (digestOf exEnv e, fileKey e))
                      (filter isStoreFile (dirEntries exDirMixed))))"
    "\<And>b. bucketToKeys st b =
       (let ks = map fileKey
                   (filter (\<lambda>e. isStoreFile e \<and> bucketOf exEnv e = b) (dirEntries exDirMixed))
        in if ks = [] then None else Some (sort ks))"
    by blast
  have n: "card (dom (keyToInfo st)) = 2" using st(2) unfolding f by simp
  have i: "keyToInfo st (exKey 108) = Some (exInfo 108)" "keyToInfo st (exKey 100) = Some (exInfo 100)"
    using st(3) mem exFile_derived(1-3) by metis+
  have h: "exactHashToKey st =
        [hashPngPixels exEnv (exDecoded 108) \<mapsto> exKey 108,
         hashPngPixels exEnv (exDecoded 100) \<mapsto> exKey 100]"
    unfolding st(4) f by (simp add: exFile_derived)
  have b: "bucketToKeys st (exBucket 108) = Some [exKey 100, exKey 108]"
    unfolding st(5) fb by (simp add: exFile_derived exKey_order)
  show ?thesis
    using st(1) n i h b sel(3) by (auto simp only: f list.size)
qed


lemma matchAll_here:
  "isStoreKey k \<Longrightarrow> matchAll ns (refPrefix ns @ k @ ''.png'' @ post) = k # matchAll ns post"
proof -
  assume k: "isStoreKey k"
  then have "matchHere ns (refPrefix ns @ k @ ''.png'' @ post) = Some k"
    using matchHere_iff by blast
  moreover have "drop (matchLength ns) (refPrefix ns @ k @ ''.png'' @ post) = post"
    using isStoreKey_length [OF k] by (simp add: matchLength_def)
  ultimately show ?thesis by (subst matchAll.simps) simp
qed

lemma matchAll_skip:
  assumes "c \<noteq> hd (refPrefix ns)"
  shows "matchAll ns (c # rest) = matchAll ns rest"
proof -
  have "refPrefix ns \<noteq> []" by (simp add: refPrefix_def)
  have p: "refPrefix ns \<noteq> []" by (simp add: refPrefix_def)
  have "matchHere ns (c # rest) = None"
  proof (cases "matchHere ns (c # rest)")
    case (Some a)
    then obtain post where "c # rest = refPrefix ns @ a @ ''.png'' @ post"
      using matchHere_iff by blast
    then have "hd (c # rest) = hd (refPrefix ns)" using p by (simp add: hd_append)
    then show ?thesis using assms by simp
  qed simp
  then show ?thesis by (subst matchAll.simps) simp
qed

lemma matchAll_Nil: "matchAll ns [] = []"
proof -
  have "matchHere ns [] = None"
    using matchHere_iff [of ns "[]"] by (cases "matchHere ns []") auto
  then show ?thesis by (subst matchAll.simps) simp
qed

lemma exKey_isStoreKey: "isStoreKey (exKey v)"
  unfolding exKey_def by (rule hex_isStoreKey, rule exEnv_hexDigests)

lemma exRef_path: "fst (exRef v) = refPrefix ''HTML'' @ exKey v @ ''.png''"
  by (simp add: exRef_def texturePathForKey_def refPrefix_def exEnv_def)

lemma exDocs_keys: "usedKeys ''HTML'' exDocs = {exKey 100, exKey 108}"
proof -
  have h: "hd (refPrefix ''HTML'') = CHR ''H''"
    by (simp add: refPrefix_def)
  have "matchAll ''HTML'' (''a'' @ fst (exRef 100) @ ''b'' @ fst (exRef 108)) =
      [exKey 100, exKey 108]"
    using matchAll_here [OF exKey_isStoreKey, of "''HTML''" 100 "''b'' @ fst (exRef 108)"]
      matchAll_here [OF exKey_isStoreKey, of "''HTML''" 108 "[]"]
    by (simp add: exRef_path matchAll_skip h matchAll_Nil)
  then show ?thesis
    by (simp add: usedKeys_def exDocs_def endsWith_def)
qed

lemma matchAll_skips:
  "\<forall>c \<in> set xs. c \<noteq> hd (refPrefix ns) \<Longrightarrow> matchAll ns (xs @ rest) = matchAll ns rest"
  by (induction xs) (simp_all add: matchAll_skip)

lemma exKey_chars: "c \<in> set (exKey v) \<Longrightarrow> c \<noteq> CHR ''g''"
  using isStoreKey_chars [OF exKey_isStoreKey, of v]
  by (auto simp: SHARED_TEXTURE_PREFIX_def isHexLower_def)

lemma exOverlap_scan: "matchAll ''game'' exOverlap = [exKey 100]"
proof -
  have h: "hd (refPrefix ''game'') = CHR ''g''" by (simp add: refPrefix_def)
  have split: "exOverlap =
      refPrefix ''game'' @ exKey 100 @ ''.png'' @ (''ame/Shared/'' @ exKey 108 @ ''.pn'') @ ''g''"
    by (simp add: exOverlap_def refPrefix_def SHARED_TEXTURES_DIR_def)
  have "matchHere ''game'' ''g'' = None"
    using matchHere_length(1) [of "''game''" "''g''"]
    by (cases "matchHere ''game'' ''g''") (auto simp: matchLength_def)
  then have last: "matchAll ''game'' ''g'' = []"
    by (subst matchAll.simps) (simp add: matchAll_Nil)
  have "\<forall>c \<in> set (''ame/Shared/'' @ exKey 108 @ ''.pn''). c \<noteq> hd (refPrefix ''game'')"
    using exKey_chars [of _ 108] by (auto simp: h)
  then have "matchAll ''game'' ((''ame/Shared/'' @ exKey 108 @ ''.pn'') @ ''g'') = []"
    by (simp only: matchAll_skips last)
  then show ?thesis
    unfolding split by (simp only: matchAll_here [OF exKey_isStoreKey])
qed

text \<open>
  Claim C7 fails as stated where two reference paths overlap: in the document
  \<open>exOverlap\<close> of the namespace \<open>game\<close> the paths of the keys of 100 and of 108 both
  occur, the second beginning at the last character of the first. The scan resumes
  behind the first match and misses the second, and the sweep deletes the file of 108
  although its key is referenced.
\<close>

theorem prune_deletes_overlapped_reference:
  "endsWith ''ui/Page.ui'' ''.ui'' \<and>
   referencedIn ''game'' exOverlap (exKey 100) \<and>
   referencedIn ''game'' exOverlap (exKey 108) \<and>
   exKey 108 \<in> referencedKeys ''game'' [(''ui/Page.ui'', exOverlap)] \<and>
   dirEntries exDir3 = [exFile 108, exFile 100] \<and>
   pruneUnusedSharedTextures ''game'' [(''ui/Page.ui'', exOverlap)] exDir3 =
     Inr (exDir3\<lparr>dirEntries := [exFile 100]\<rparr>, 1)"
proof -
  have ui: "endsWith ''ui/Page.ui'' ''.ui''" by (simp add: endsWith_def)
  have a: "referencedIn ''game'' exOverlap (exKey 100)"
    unfolding referencedIn_def exOverlap_def
    using exKey_isStoreKey [of 100]
    by (intro conjI exI [of _ "[]"]
        exI [of _ "''ame/Shared/'' @ exKey 108 @ ''.png''"])
       (simp_all add: refPrefix_def SHARED_TEXTURES_DIR_def)
  have b: "referencedIn ''game'' exOverlap (exKey 108)"
    unfolding referencedIn_def exOverlap_def
    using exKey_isStoreKey [of 108]
    by (intro conjI exI [of _ "refPrefix ''game'' @ exKey 100 @ ''.pn''"] exI [of _ "[]"])
       simp_all
  have r: "exKey 108 \<in> referencedKeys ''game'' [(''ui/Page.ui'', exOverlap)]"
    using ui b by (simp add: referencedKeys_def)
  have used: "usedKeys ''game'' [(''ui/Page.ui'', exOverlap)] = {exKey 100}"
    by (simp add: usedKeys_def ui exOverlap_scan)
  have st: "isStoreFile (exFile v)" "fileKey (exFile v) = exKey v" for v
    by (simp_all add: isStoreFile_def fileKey_def exFile_def)
  have "pruneUnusedSharedTextures ''game'' [(''ui/Page.ui'', exOverlap)] exDir3 =
     Inr (exDir3\<lparr>dirEntries := [exFile 100]\<rparr>, 1)"
    by (simp add: pruneUnusedSharedTextures_def pruneLoop_filter unusedFile_fun used st
        exKey_distinct)
  then show ?thesis using ui a b r by simp
qed

lemma separating_HTML: "separating ''HTML''"
  by (simp add: separating_def refPrefix_def SHARED_TEXTURES_DIR_def SHARED_TEXTURE_PREFIX_def
      isHexLower_def)

theorem prune_deletes_exactly_unreferenced_witness:
  "referencedKeys ''HTML'' exDocs = {exKey 100, exKey 108} \<and>
   (\<exists>fs' deleted.
      pruneUnusedSharedTextures ''HTML'' exDocs exDirGc = Inr (fs', deleted) \<and>
      dirEntries fs' = [exFile 100, (''readme.txt'', RegularFile [7, 2, 3]), exFile 108] \<and>
      set (dirEntries exDirGc) - set (dirEntries fs') = {exFile 104} \<and>
      deleted = 1) \<and>
   pruneUnusedSharedTextures ''HTML'' exDocs (exDirGc\<lparr>dirWritable := False\<rparr>) = Inl RmError"
proof -
  have sel: "dirExists exDirGc" "dirReadable exDirGc" "dirWritable exDirGc"
    "dirEntries exDirGc = [exFile 100, exFile 104, (''readme.txt'', RegularFile [7, 2, 3]), exFile 108]"
    by (simp_all add: exDirGc_def)
  have st: "isStoreFile (exFile v)" "fileKey (exFile v) = exKey v" for v
    by (simp_all add: isStoreFile_def fileKey_def exFile_def)
  have junk: "\<not> isStoreFile (''readme.txt'', RegularFile [7, 2, 3])"
    by (simp add: isStoreFile_def ex_junk)
  note main = prune_deletes_exactly_unreferenced [OF sel(1,2), of "''HTML''" exDocs]
  from main separating_HTML have ref: "referencedKeys ''HTML'' exDocs = {exKey 100, exKey 108}"
    by (simp add: exDocs_keys)
  from main sel(3) obtain fs' deleted where
    p: "pruneUnusedSharedTextures ''HTML'' exDocs exDirGc = Inr (fs', deleted)"
       "dirEntries fs' =
          filter (\<lambda>e. \<not> (isStoreFile e \<and> fileKey e \<notin> usedKeys ''HTML'' exDocs)) (dirEntries exDirGc)"
       "set (dirEntries exDirGc) - set (dirEntries fs') =
          {e \<in> set (dirEntries exDirGc). isStoreFile e \<and> fileKey e \<notin> usedKeys ''HTML'' exDocs}"
       "deleted = length (filter (\<lambda>e. isStoreFile e \<and> fileKey e \<notin> usedKeys ''HTML'' exDocs)
          (dirEntries exDirGc))"
    by blast
  have keep: "dirEntries fs' = [exFile 100, (''readme.txt'', RegularFile [7, 2, 3]), exFile 108]"
    unfolding p(2) sel(4) by (simp add: st junk exDocs_keys exKey_distinct)
  have "{e \<in> set (dirEntries exDirGc). isStoreFile e \<and> fileKey e \<notin> usedKeys ''HTML'' exDocs} =
      {exFile 104}"
    unfolding sel(4) using junk by (auto simp: st exDocs_keys exKey_distinct)
  then have gone: "set (dirEntries exDirGc) - set (dirEntries fs') = {exFile 104}"
    using p(3) by simp
  have n: "deleted = 1"
    unfolding p(4) sel(4) by (simp add: st junk exDocs_keys exKey_distinct)
  have ro: "dirExists (exDirGc\<lparr>dirWritable := False\<rparr>)" "dirReadable (exDirGc\<lparr>dirWritable := False\<rparr>)"
    by (simp_all add: sel)
  have "pruneUnusedSharedTextures ''HTML'' exDocs (exDirGc\<lparr>dirWritable := False\<rparr>) = Inl RmError"
    using prune_deletes_exactly_unreferenced [OF ro, of "''HTML''" exDocs]
    by (simp add: sel st exDocs_keys exKey_distinct)
  then show ?thesis using p(1) keep gone n ref by blast
qed

end
